theory Spec2Isabelle
  imports Complex_Main "HOL-Library.Sublist"
begin

section \<open>Conventions of the embedding\<close>

text \<open>
  The development embeds the request-orchestration core of the scraper platform:
  \<^item> \<open>common/pipeline/file_pipeline.py\<close> (\<open>BiomedicalFilesPipeline\<close>),
  \<^item> \<open>common/middleware/rate_limit.py\<close> (\<open>SmartRateLimiter\<close>, \<open>SessionManager\<close>),
  \<^item> \<open>common/proxy/proxy_pool.py\<close> (\<open>ProxyInfo\<close>, \<open>ProxyPool\<close>).

  Python \<open>str\<close> is \<open>string\<close> (ASCII text), Python \<open>float\<close> is idealised as \<open>real\<close>
  (exact arithmetic, no rounding), and a \<open>datetime\<close> is a \<open>real\<close> number of seconds, so
  that \<open>(a - b).total_seconds()\<close> is \<open>a - b\<close> and \<open>timedelta(seconds=n)\<close> is \<open>n\<close>.
  Every call of \<open>datetime.now()\<close> inside one method is the method's argument \<open>now\<close>.
  Mutation is explicit state passing; an object that the code keeps in a list and
  mutates in place is addressed by its position in that list.
\<close>

section \<open>Standard-library string functions used by the code\<close>

text \<open>\<open>str(n)\<close> of a Python integer: decimal digits, with a leading minus sign.\<close>

definition digit_char :: "nat \<Rightarrow> char" where
  "digit_char d = ''0123456789'' ! d"

fun str_nat :: "nat \<Rightarrow> string" where
  "str_nat n = (if n < 10 then [digit_char n] else str_nat (n div 10) @ [digit_char (n mod 10)])"

declare str_nat.simps [simp del]

definition str_int :: "int \<Rightarrow> string" where
  "str_int i = (if i < 0 then CHR ''-'' # str_nat (nat (- i)) else str_nat (nat i))"

text \<open>\<open>s.rfind(c)\<close>: the last position of \<open>c\<close> in \<open>s\<close>, or \<open>-1\<close>.\<close>

fun rfind :: "char \<Rightarrow> string \<Rightarrow> int" where
  "rfind c [] = - 1"
| "rfind c (x # xs) =
     (let r = rfind c xs in if 0 \<le> r then r + 1 else if x = c then 0 else - 1)"

text \<open>
  \<open>os.path.splitext\<close> (POSIX): the extension starts at the last dot of the last path
  component, unless that component consists of leading dots only up to there. The
  \<open>while\<close> loop that skips leading dots is \<open>skip_leading_dots\<close>: it answers whether a
  character other than a dot stands in \<open>p[filenameIndex:dotIndex]\<close>.
\<close>

function skip_leading_dots :: "string \<Rightarrow> nat \<Rightarrow> nat \<Rightarrow> bool" where
  "skip_leading_dots p filenameIndex dotIndex =
     (if filenameIndex < dotIndex
      then (if p ! filenameIndex \<noteq> CHR ''.'' then True
            else skip_leading_dots p (filenameIndex + 1) dotIndex)
      else False)"
  by pat_completeness auto
termination
  by (relation "measure (\<lambda>(p, filenameIndex, dotIndex). dotIndex - filenameIndex)") auto

declare skip_leading_dots.simps [simp del]

definition splitext :: "string \<Rightarrow> string \<times> string" where
  "splitext p =
     (let sepIndex = rfind CHR ''/'' p;
          dotIndex = rfind CHR ''.'' p
      in if sepIndex < dotIndex \<and> skip_leading_dots p (nat (sepIndex + 1)) (nat dotIndex)
         then (take (nat dotIndex) p, drop (nat dotIndex) p)
         else (p, []))"

text \<open>\<open>os.path.basename\<close> (POSIX): everything after the last slash.\<close>

definition basename :: "string \<Rightarrow> string" where
  "basename p = drop (nat (rfind CHR ''/'' p + 1)) p"

text \<open>\<open>str.lower()\<close> on ASCII text.\<close>

definition lower_char :: "char \<Rightarrow> char" where
  "lower_char c =
     (case map_of (zip ''ABCDEFGHIJKLMNOPQRSTUVWXYZ'' ''abcdefghijklmnopqrstuvwxyz'') c of
        Some l \<Rightarrow> l
      | None \<Rightarrow> c)"

definition lower :: "string \<Rightarrow> string" where
  "lower s = map lower_char s"

section \<open>The file pipeline (\<open>BiomedicalFilesPipeline\<close>)\<close>

text \<open>
  A download request carries the path component of its URL (\<open>urlparse(url).path\<close>,
  computed by the standard library and taken as given) and the \<open>meta\<close> dictionary; a key
  that is absent from \<open>meta\<close> is \<open>None\<close>, and \<open>meta.get(key, default)\<close> supplies the
  default. A response carries its \<open>Content-Type\<close> header, if it has one, as the text that
  \<open>decode('utf-8')\<close> yields; a missing header reads as the empty string.
\<close>

record request_meta =
  track_id :: "string option"
  file_type :: "string option"
  file_index :: "int option"
  comment_index :: "int option"

record request =
  url_path :: string
  meta :: request_meta

record response =
  content_type_header :: "string option"

text \<open>The dictionary \<open>ext_map\<close>, in insertion order (the order \<open>items()\<close> iterates in).\<close>

definition ext_map :: "(string \<times> string) list" where
  "ext_map =
     [(''application/pdf'', ''.pdf''),
      (''application/msword'', ''.doc''),
      (''application/vnd.openxmlformats-officedocument.wordprocessingml.document'', ''.docx''),
      (''application/vnd.ms-excel'', ''.xls''),
      (''application/vnd.openxmlformats-officedocument.spreadsheetml.sheet'', ''.xlsx''),
      (''text/plain'', ''.txt''),
      (''text/csv'', ''.csv''),
      (''application/zip'', ''.zip''),
      (''application/x-gzip'', ''.gz'')]"

text \<open>
  The loop \<open>for mime_type, extension in ext_map.items(): if mime_type in content_type:
  return extension\<close>; Python's \<open>in\<close> on strings is the contiguous \<^const>\<open>sublist\<close> test.
\<close>

fun lookup_mime :: "(string \<times> string) list \<Rightarrow> string \<Rightarrow> string option" where
  "lookup_mime [] content_type = None"
| "lookup_mime ((mime_type, extension) # rest) content_type =
     (if sublist mime_type content_type then Some extension
      else lookup_mime rest content_type)"

definition get_file_extension :: "string \<Rightarrow> response option \<Rightarrow> string" where
  "get_file_extension path response =
     (let ext = snd (splitext path)
      in if path \<noteq> [] \<and> ext \<noteq> [] then lower ext
         else (case response of
                 None \<Rightarrow> ''.bin''
               | Some r \<Rightarrow>
                   (let content_type =
                          lower (case content_type_header r of None \<Rightarrow> [] | Some v \<Rightarrow> v)
                    in case lookup_mime ext_map content_type of
                         Some extension \<Rightarrow> extension
                       | None \<Rightarrow> ''.bin'')))"

definition file_path :: "request \<Rightarrow> response option \<Rightarrow> string" where
  "file_path rq response =
     (let tid = (case track_id (meta rq) of None \<Rightarrow> ''None'' | Some t \<Rightarrow> t);
          ftype = (case file_type (meta rq) of None \<Rightarrow> ''unknown'' | Some f \<Rightarrow> f);
          findex = (case file_index (meta rq) of None \<Rightarrow> 0 | Some i \<Rightarrow> i);
          file_ext = get_file_extension (url_path rq) response
      in if ftype = ''main'' then ''main_file/'' @ tid @ file_ext
         else if ftype = ''supplementary''
           then ''SI_file/'' @ tid @ ''/'' @ ''sup_'' @ str_int findex @ file_ext
         else if ftype = ''peer_review''
           then ''PR_file/'' @ tid @ ''/'' @ ''pr_'' @ str_int findex @ file_ext
         else if ftype = ''comment_attachment''
           then (let comment_idx =
                       (case comment_index (meta rq) of None \<Rightarrow> 0 | Some c \<Rightarrow> c)
                 in ''PR_file/'' @ tid @ ''/'' @ ''comment_'' @ str_int comment_idx
                      @ ''_attach_'' @ str_int findex @ file_ext)
         else (let filename = basename (url_path rq);
                   filename' = (if filename = [] then ''file_'' @ str_int findex @ file_ext
                                else filename)
               in ''other/'' @ tid @ ''/'' @ filename'))"

text \<open>
  The request that \<open>get_media_requests\<close> builds for one file reference:
  \<open>Request(url, meta={'track_id': t, 'file_type': ft, 'file_index': i, ...})\<close>, with
  \<open>'comment_index'\<close> present for comment attachments only.
\<close>

definition download_request :: "string \<Rightarrow> string \<Rightarrow> string \<Rightarrow> int \<Rightarrow> int option \<Rightarrow> request" where
  "download_request p t ft i c =
     \<lparr>url_path = p,
      meta = \<lparr>track_id = Some t, file_type = Some ft, file_index = Some i, comment_index = c\<rparr>\<rparr>"

text \<open>
  The file types that have a branch of their own in \<open>file_path\<close> (every other value
  takes the final \<open>else\<close>), and the top-level directory each branch writes to.
\<close>

definition named_role :: "string \<Rightarrow> bool" where
  "named_role ft \<longleftrightarrow>
     ft = ''main'' \<or> ft = ''supplementary'' \<or> ft = ''peer_review'' \<or> ft = ''comment_attachment''"

definition role_dir :: "string \<Rightarrow> string" where
  "role_dir ft =
     (if ft = ''main'' then ''main_file/''
      else if ft = ''supplementary'' then ''SI_file/''
      else if ft = ''peer_review'' \<or> ft = ''comment_attachment'' then ''PR_file/''
      else ''other/'')"

subsection \<open>Completion of an item\<close>

text \<open>
  \<open>item_completed\<close> receives the list \<open>results\<close> of pairs \<open>(success, file_info)\<close>. The
  \<open>file_info\<close> of a successful download is a dictionary that the method mutates after
  it has put the list of these dictionaries into the item, so the dictionaries live in a
  store of objects and \<open>results\<close> and the summary hold their addresses. (The second
  component of a failed download is a failure object, which is only logged.)

  The file system is a map from paths to entries: a file with its bytes, or an entry
  that exists but cannot be opened or read. \<open>hashlib.sha256\<close> is a parameter: \<open>H bs\<close> is
  the hexadecimal SHA-256 digest of the bytes \<open>bs\<close>, and the state of a hash object is
  the bytes fed to it so far.
\<close>

type_synonym bytes = "char list"

type_synonym file_info = "string \<rightharpoonup> string"

datatype disk_entry = File bytes | Broken

record summary =
  successful :: nat
  failed :: nat
  files :: "nat list"

datatype item_value = Text string | Downloaded summary

text \<open>\<open>os.path.join\<close> of two components (POSIX).\<close>

definition path_join :: "string \<Rightarrow> string \<Rightarrow> string" where
  "path_join a b =
     (if prefix ''/'' b then b
      else if a = [] \<or> suffix ''/'' a then a @ b
      else a @ ''/'' @ b)"

text \<open>The blocks that \<open>iter(lambda: f.read(4096), b"")\<close> yields for a file.\<close>

function read_blocks :: "bytes \<Rightarrow> bytes list" where
  "read_blocks bs = (if bs = [] then [] else take 4096 bs # read_blocks (drop 4096 bs))"
  by pat_completeness auto
termination
  by (relation "measure length") auto

declare read_blocks.simps [simp del]

definition calculate_sha256 :: "(bytes \<Rightarrow> string) \<Rightarrow> (string \<rightharpoonup> disk_entry) \<Rightarrow> string \<Rightarrow> string" where
  "calculate_sha256 H fs file_path' =
     (case fs file_path' of
        Some (File bs) \<Rightarrow> H (foldl (\<lambda>fed byte_block. fed @ byte_block) [] (read_blocks bs))
      | Some Broken \<Rightarrow> []
      | None \<Rightarrow> [])"

text \<open>
  The body of the checksum loop for one \<open>file_info\<close> dictionary, and
  \<open>item_completed\<close>: the summary goes into the item, then the loop runs over the
  successful dictionaries in the store.
\<close>

definition attach_sha256 ::
  "(bytes \<Rightarrow> string) \<Rightarrow> string \<Rightarrow> (string \<rightharpoonup> disk_entry) \<Rightarrow> file_info \<Rightarrow> file_info" where
  "attach_sha256 H basedir fs info =
     (case info ''path'' of
        None \<Rightarrow> info
      | Some p \<Rightarrow>
          if p \<noteq> [] then
            (let full_path = path_join basedir p
             in if fs full_path \<noteq> None
                then info(''sha256'' \<mapsto> calculate_sha256 H fs full_path)
                else info)
          else info)"

definition item_completed ::
  "(bytes \<Rightarrow> string) \<Rightarrow> string \<Rightarrow> (string \<rightharpoonup> disk_entry) \<Rightarrow> (bool \<times> nat) list \<Rightarrow>
     (string \<rightharpoonup> item_value) \<Rightarrow> (nat \<Rightarrow> file_info) \<Rightarrow> (string \<rightharpoonup> item_value) \<times> (nat \<Rightarrow> file_info)" where
  "item_completed H basedir fs results item heap =
     (let successful' = map snd (filter (\<lambda>(success, a). success) results);
          failed' = map snd (filter (\<lambda>(success, a). \<not> success) results);
          item' = item(''downloaded_files'' \<mapsto>
                    Downloaded \<lparr>successful = length successful', failed = length failed',
                                files = successful'\<rparr>)
      in (item',
          foldl (\<lambda>heap' a. heap'(a := attach_sha256 H basedir fs (heap' a))) heap successful'))"

section \<open>The rate limiter (\<open>SmartRateLimiter\<close>)\<close>

record domain_stat =
  total_requests :: nat
  success_requests :: nat
  failed_requests :: nat
  avg_response_time :: real
  current_delay :: real

record rate_limiter =
  min_delay :: real
  max_delay :: real
  randomize :: bool
  adaptive :: bool
  last_request_time :: "string \<rightharpoonup> real"
  domain_stats :: "string \<rightharpoonup> domain_stat"

definition new_limiter :: "real \<Rightarrow> real \<Rightarrow> bool \<Rightarrow> bool \<Rightarrow> rate_limiter" where
  "new_limiter lo hi rnd adapt =
     \<lparr>min_delay = lo, max_delay = hi, randomize = rnd, adaptive = adapt,
      last_request_time = Map.empty, domain_stats = Map.empty\<rparr>"

text \<open>
  \<open>self.domain_stats[domain]\<close> on the \<open>defaultdict\<close>: the entry of the domain, or the
  default entry, whose delay is \<open>min_delay\<close>.
\<close>

definition stats_of :: "rate_limiter \<Rightarrow> string \<Rightarrow> domain_stat" where
  "stats_of L domain =
     (case domain_stats L domain of
        Some stats \<Rightarrow> stats
      | None \<Rightarrow> \<lparr>total_requests = 0, success_requests = 0, failed_requests = 0,
                 avg_response_time = 0, current_delay = min_delay L\<rparr>)"

definition adjust_delay :: "rate_limiter \<Rightarrow> string \<Rightarrow> rate_limiter" where
  "adjust_delay L domain =
     (let stats = stats_of L domain;
          error_rate = (if total_requests stats > 0
                        then real (failed_requests stats) / real (total_requests stats) else 0);
          cur = current_delay stats
      in if error_rate > 0.2
         then L\<lparr>domain_stats := (domain_stats L)
                  (domain \<mapsto> stats\<lparr>current_delay := min (cur * 1.5) (max_delay L)\<rparr>)\<rparr>
         else if error_rate < 0.05 \<and> avg_response_time stats < 1.0
         then (let new_delay = max (cur * 0.9) (min_delay L)
               in if new_delay < cur
                  then L\<lparr>domain_stats := (domain_stats L)
                           (domain \<mapsto> stats\<lparr>current_delay := new_delay\<rparr>)\<rparr>
                  else L\<lparr>domain_stats := (domain_stats L)(domain \<mapsto> stats)\<rparr>)
         else L\<lparr>domain_stats := (domain_stats L)(domain \<mapsto> stats)\<rparr>)"

definition record_success :: "rate_limiter \<Rightarrow> string \<Rightarrow> real \<Rightarrow> rate_limiter" where
  "record_success L domain rt =
     (let stats = stats_of L domain;
          stats1 = stats\<lparr>total_requests := total_requests stats + 1,
                         success_requests := success_requests stats + 1\<rparr>;
          stats2 = stats1\<lparr>avg_response_time :=
                     (if avg_response_time stats1 = 0 then rt
                      else (avg_response_time stats1 + rt) / 2)\<rparr>;
          L1 = L\<lparr>domain_stats := (domain_stats L)(domain \<mapsto> stats2)\<rparr>
      in if adaptive L then adjust_delay L1 domain else L1)"

definition record_failure :: "rate_limiter \<Rightarrow> string \<Rightarrow> rate_limiter" where
  "record_failure L domain =
     (let stats = stats_of L domain;
          stats1 = stats\<lparr>total_requests := total_requests stats + 1,
                         failed_requests := failed_requests stats + 1\<rparr>;
          L1 = L\<lparr>domain_stats := (domain_stats L)(domain \<mapsto> stats1)\<rparr>
      in if adaptive L then adjust_delay L1 domain else L1)"

text \<open>A recorded outcome, and the limiter after recording it.\<close>

datatype outcome = Succeeded string real | Failed string

fun outcome_domain :: "outcome \<Rightarrow> string" where
  "outcome_domain (Succeeded domain rt) = domain"
| "outcome_domain (Failed domain) = domain"

fun record_outcome :: "rate_limiter \<Rightarrow> outcome \<Rightarrow> rate_limiter" where
  "record_outcome L (Succeeded domain rt) = record_success L domain rt"
| "record_outcome L (Failed domain) = record_failure L domain"

text \<open>
  \<open>delay_inv lo hi L\<close>: the limiter is adaptive with bounds \<open>lo\<close> and \<open>hi\<close>, and the
  delay of every domain lies between them.
\<close>

definition delay_inv :: "real \<Rightarrow> real \<Rightarrow> rate_limiter \<Rightarrow> bool" where
  "delay_inv lo hi L \<longleftrightarrow>
     min_delay L = lo \<and> max_delay L = hi \<and> adaptive L \<and>
     (\<forall>d. lo \<le> current_delay (stats_of L d) \<and> current_delay (stats_of L d) \<le> hi)"

section \<open>The session manager (\<open>SessionManager\<close>)\<close>

text \<open>
  A session is the dictionary that \<open>save_session\<close> builds. Its two time stamps are stored
  as ISO strings and read back with \<open>fromisoformat\<close>, which returns the \<open>datetime\<close> that
  was written; they are kept as times. The pickle files of the session directory are
  part of the state: a file holds a pickled session, or content from which no valid
  session can be loaded.
\<close>

record session =
  platform :: string
  account_id :: "string option"
  cookies :: "string \<rightharpoonup> string"
  created_at :: real
  last_used :: real
  metadata :: "string \<rightharpoonup> string"

datatype stored_file = Pickled session | Unloadable

record session_manager =
  session_dir :: string
  session_timeout :: int
  sessions :: "string \<rightharpoonup> session"
  disk :: "string \<rightharpoonup> stored_file"

text \<open>
  \<open>f"{platform}_{account_id}" if account_id else platform\<close>: an account id that is
  \<open>None\<close> or the empty string is falsy.
\<close>

definition session_key :: "string \<Rightarrow> string option \<Rightarrow> string" where
  "session_key plat account =
     (case account of
        None \<Rightarrow> plat
      | Some a \<Rightarrow> if a \<noteq> [] then plat @ ''_'' @ a else plat)"

definition is_session_valid :: "session_manager \<Rightarrow> session \<Rightarrow> real \<Rightarrow> bool" where
  "is_session_valid M s now \<longleftrightarrow> now - last_used s < real_of_int (session_timeout M)"

definition get_session_filepath :: "session_manager \<Rightarrow> string \<Rightarrow> string" where
  "get_session_filepath M key = path_join (session_dir M) (key @ ''.pkl'')"

definition load_session_from_file :: "session_manager \<Rightarrow> string \<Rightarrow> session option" where
  "load_session_from_file M key =
     (case disk M (get_session_filepath M key) of
        None \<Rightarrow> None
      | Some Unloadable \<Rightarrow> None
      | Some (Pickled s) \<Rightarrow> Some s)"

text \<open>
  Writing the pickle file can fail: \<open>open\<close> may raise, which leaves the file as it was,
  or \<open>pickle.dump\<close> may raise after \<open>open\<close> has truncated the file. Both are caught and
  logged. The outcome of the write is an argument.
\<close>

datatype write_outcome = Written | Open_failed | Dump_failed

definition save_session_to_file :: "session_manager \<Rightarrow> string \<Rightarrow> session \<Rightarrow> write_outcome \<Rightarrow> session_manager" where
  "save_session_to_file M key s wr =
     (case wr of
        Written \<Rightarrow> M\<lparr>disk := (disk M)(get_session_filepath M key \<mapsto> Pickled s)\<rparr>
      | Open_failed \<Rightarrow> M
      | Dump_failed \<Rightarrow> M\<lparr>disk := (disk M)(get_session_filepath M key \<mapsto> Unloadable)\<rparr>)"

text \<open>The second half of \<open>get_session\<close>: load from the file, validate, cache.\<close>

definition get_session_from_file :: "session_manager \<Rightarrow> string \<Rightarrow> real \<Rightarrow> session option \<times> session_manager" where
  "get_session_from_file M key now =
     (case load_session_from_file M key of
        Some s \<Rightarrow>
          if is_session_valid M s now then (Some s, M\<lparr>sessions := (sessions M)(key \<mapsto> s)\<rparr>)
          else (None, M)
      | None \<Rightarrow> (None, M))"

definition get_session :: "session_manager \<Rightarrow> string \<Rightarrow> string option \<Rightarrow> real \<Rightarrow> session option \<times> session_manager" where
  "get_session M plat account now =
     (let session_key' = session_key plat account
      in case sessions M session_key' of
           Some s \<Rightarrow>
             if is_session_valid M s now then (Some s, M)
             else get_session_from_file (M\<lparr>sessions := (sessions M)(session_key' := None)\<rparr>)
                    session_key' now
         | None \<Rightarrow> get_session_from_file M session_key' now)"

definition save_session ::
  "session_manager \<Rightarrow> string \<Rightarrow> (string \<rightharpoonup> string) \<Rightarrow> string option \<Rightarrow> (string \<rightharpoonup> string) option \<Rightarrow>
     real \<Rightarrow> write_outcome \<Rightarrow> session_manager" where
  "save_session M plat cks account md now wr =
     (let session_key' = session_key plat account;
          s = \<lparr>platform = plat, account_id = account, cookies = cks, created_at = now,
               last_used = now,
               metadata = (case md of None \<Rightarrow> Map.empty | Some m \<Rightarrow> m)\<rparr>
      in save_session_to_file (M\<lparr>sessions := (sessions M)(session_key' \<mapsto> s)\<rparr>)
           session_key' s wr)"

text \<open>
  \<open>clear_session\<close> deletes the cache entry and then the file, if it exists. \<open>os.remove\<close>
  is not guarded: when it raises (\<open>remove_ok\<close> is false) the exception leaves the method
  with the cache entry already deleted.
\<close>

datatype os_error = OSError

definition clear_session :: "session_manager \<Rightarrow> string \<Rightarrow> string option \<Rightarrow> bool \<Rightarrow> os_error option \<times> session_manager" where
  "clear_session M plat account remove_ok =
     (let session_key' = session_key plat account;
          M1 = M\<lparr>sessions := (sessions M)(session_key' := None)\<rparr>;
          filepath = get_session_filepath M1 session_key'
      in if disk M1 filepath \<noteq> None
         then (if remove_ok then (None, M1\<lparr>disk := (disk M1)(filepath := None)\<rparr>)
               else (Some OSError, M1))
         else (None, M1))"

section \<open>The proxy pool (\<open>ProxyInfo\<close>, \<open>ProxyPool\<close>)\<close>

text \<open>
  The counters of a \<open>ProxyInfo\<close> start at 0 and are only ever incremented, so they are
  natural numbers. \<open>last_used\<close> and \<open>last_success\<close> are \<open>None\<close> until first set.
\<close>

record proxy_info =
  url :: string
  protocol :: string
  success_count :: nat
  fail_count :: nat
  last_used :: "real option"
  last_success :: "real option"
  response_time :: real
  is_banned :: bool

definition success_rate :: "proxy_info \<Rightarrow> real" where
  "success_rate p =
     (let total = success_count p + fail_count p
      in if total > 0 then real (success_count p) / real total else 0)"

definition score :: "proxy_info \<Rightarrow> real" where
  "score p =
     (let success_score = success_rate p * 70;
          speed_score = max 0 (30 - response_time p * 10)
      in success_score + speed_score)"

record proxy_pool =
  rotation_strategy :: string
  max_fail_count :: int
  ban_duration :: int
  proxies :: "proxy_info list"
  current_index :: nat

definition add_proxy :: "proxy_pool \<Rightarrow> string \<Rightarrow> string \<Rightarrow> proxy_pool" where
  "add_proxy pool proxy_url proto =
     pool\<lparr>proxies := proxies pool @
       [\<lparr>url = proxy_url, protocol = proto, success_count = 0, fail_count = 0,
         last_used = None, last_success = None, response_time = 0, is_banned = False\<rparr>]\<rparr>"

text \<open>
  The constructor: \<open>ProxyPool(proxies, rotation_strategy, max_fail_count, ban_duration)\<close>
  adds the given URLs one by one with the default protocol.
\<close>

definition new_pool :: "string list \<Rightarrow> string \<Rightarrow> int \<Rightarrow> int \<Rightarrow> proxy_pool" where
  "new_pool urls strategy max_fails ban =
     foldl (\<lambda>pool u. add_proxy pool u ''http'')
       \<lparr>rotation_strategy = strategy, max_fail_count = max_fails, ban_duration = ban,
        proxies = [], current_index = 0\<rparr> urls"

text \<open>\<open>_find_proxy\<close>: the first proxy of the list with this URL, as its position.\<close>

fun find_proxy :: "proxy_info list \<Rightarrow> string \<Rightarrow> nat option" where
  "find_proxy [] proxy_url = None"
| "find_proxy (p # ps) proxy_url =
     (if url p = proxy_url then Some 0 else map_option Suc (find_proxy ps proxy_url))"

definition mark_success :: "proxy_pool \<Rightarrow> string \<Rightarrow> real \<Rightarrow> real \<Rightarrow> proxy_pool" where
  "mark_success pool proxy_url rt now =
     (case find_proxy (proxies pool) proxy_url of
        None \<Rightarrow> pool
      | Some k \<Rightarrow>
          (let p = proxies pool ! k;
               p1 = p\<lparr>success_count := success_count p + 1, last_success := Some now,
                      is_banned := False\<rparr>;
               p2 = p1\<lparr>response_time :=
                        (if response_time p1 = 0 then rt else (response_time p1 + rt) / 2)\<rparr>
           in pool\<lparr>proxies := (proxies pool)[k := p2]\<rparr>))"

definition mark_failure :: "proxy_pool \<Rightarrow> string \<Rightarrow> string \<Rightarrow> proxy_pool" where
  "mark_failure pool proxy_url reason =
     (case find_proxy (proxies pool) proxy_url of
        None \<Rightarrow> pool
      | Some k \<Rightarrow>
          (let p = proxies pool ! k;
               p1 = p\<lparr>fail_count := fail_count p + 1\<rparr>;
               p2 = (if max_fail_count pool \<le> int (fail_count p1) then p1\<lparr>is_banned := True\<rparr>
                     else p1)
           in pool\<lparr>proxies := (proxies pool)[k := p2]\<rparr>))"

text \<open>
  The filter of \<open>get_proxy\<close>: a proxy is available when it is not banned, or when it has
  been used and more than \<open>ban_duration\<close> seconds have passed since.
\<close>

definition available :: "proxy_pool \<Rightarrow> real \<Rightarrow> proxy_info \<Rightarrow> bool" where
  "available pool now p \<longleftrightarrow>
     \<not> is_banned p \<or>
     (case last_used p of None \<Rightarrow> False | Some lu \<Rightarrow> now - lu > real_of_int (ban_duration pool))"

text \<open>
  \<open>max(available_proxies, key=lambda p: p.score)\<close>: the first candidate of maximal
  score; a later candidate replaces the best so far only when its score is greater.
\<close>

fun max_by_score :: "proxy_info list \<Rightarrow> nat \<Rightarrow> nat list \<Rightarrow> nat" where
  "max_by_score ps best [] = best"
| "max_by_score ps best (k # ks) =
     max_by_score ps (if score (ps ! k) > score (ps ! best) then k else best) ks"

text \<open>
  \<open>get_proxy\<close> returns the dictionary \<open>{"http": url, "https": url}\<close> or \<open>None\<close>, and the
  pool with \<open>last_used\<close> of the chosen proxy (and the round-robin index) updated. The
  candidates are positions in \<open>proxies\<close>, in list order. The draw of \<open>random.choice\<close> is
  the argument \<open>rnd\<close>, reduced modulo the number of candidates.
\<close>

definition get_proxy :: "proxy_pool \<Rightarrow> real \<Rightarrow> nat \<Rightarrow> (string \<times> string) list option \<times> proxy_pool" where
  "get_proxy pool now rnd =
     (if proxies pool = [] then (None, pool)
      else
        (let available_proxies =
               filter (\<lambda>k. available pool now (proxies pool ! k)) [0..<length (proxies pool)]
         in if available_proxies = [] then (None, pool)
            else
              (let (k, pool1) =
                     (if rotation_strategy pool = ''round_robin''
                        then (available_proxies ! (current_index pool mod length available_proxies),
                              pool\<lparr>current_index := current_index pool + 1\<rparr>)
                      else if rotation_strategy pool = ''random''
                        then (available_proxies ! (rnd mod length available_proxies), pool)
                      else if rotation_strategy pool = ''best_performance''
                        then (max_by_score (proxies pool) (hd available_proxies)
                                (tl available_proxies), pool)
                      else (available_proxies ! 0, pool));
                   proxy = (proxies pool1 ! k)\<lparr>last_used := Some now\<rparr>
               in (Some [(''http'', url proxy), (''https'', url proxy)],
                   pool1\<lparr>proxies := (proxies pool1)[k := proxy]\<rparr>))))"

text \<open>
  \<open>health_check\<close> probes every proxy in list order. The outcome of the HTTP probe of the
  proxy at position \<open>k\<close> is given by \<open>probe k\<close>: status 200 with a measured response time
  (and the time of the call), or a failure (another status, or an exception).
\<close>

datatype probe_result = Probe_ok real real | Probe_failed string

record health_stats =
  total :: nat
  healthy :: nat
  unhealthy :: nat
  banned :: nat

definition health_step :: "(nat \<Rightarrow> probe_result) \<Rightarrow> nat \<Rightarrow> proxy_pool \<times> nat \<times> nat \<Rightarrow> proxy_pool \<times> nat \<times> nat" where
  "health_step probe k st =
     (case st of (pool, n_healthy, n_unhealthy) \<Rightarrow>
        (case probe k of
           Probe_ok rt now \<Rightarrow>
             (mark_success pool (url (proxies pool ! k)) rt now, n_healthy + 1, n_unhealthy)
         | Probe_failed reason \<Rightarrow>
             (mark_failure pool (url (proxies pool ! k)) reason, n_healthy, n_unhealthy + 1)))"

definition health_check :: "(nat \<Rightarrow> probe_result) \<Rightarrow> proxy_pool \<Rightarrow> health_stats \<times> proxy_pool" where
  "health_check probe pool =
     (case fold (health_step probe) [0..<length (proxies pool)] (pool, 0, 0) of
        (pool', n_healthy, n_unhealthy) \<Rightarrow>
          (\<lparr>total = length (proxies pool'), healthy = n_healthy, unhealthy = n_unhealthy,
            banned = length (filter is_banned (proxies pool'))\<rparr>, pool'))"

text \<open>
  \<open>load_from_file\<close> adds every line that is neither blank nor a \<open>#\<close> comment after
  \<open>strip()\<close> (which removes the ASCII white space at both ends); \<open>load_from_api\<close> adds
  every URL of the parsed answer. Both catch every exception: a file or an answer that
  cannot be read (\<open>None\<close>) leaves the pool as it is.
\<close>

definition is_space :: "char \<Rightarrow> bool" where
  "is_space c \<longleftrightarrow>
     c \<in> set [CHR '' '', CHR 0x09, CHR 0x0A, CHR 0x0B, CHR 0x0C, CHR 0x0D,
                CHR 0x1C, CHR 0x1D, CHR 0x1E, CHR 0x1F]"

definition strip :: "string \<Rightarrow> string" where
  "strip s = rev (dropWhile is_space (rev (dropWhile is_space s)))"

definition load_from_file :: "proxy_pool \<Rightarrow> string list option \<Rightarrow> proxy_pool" where
  "load_from_file pool file_lines =
     (case file_lines of
        None \<Rightarrow> pool
      | Some ls \<Rightarrow>
          foldl (\<lambda>pl line.
                   (let proxy_url = strip line
                    in if proxy_url \<noteq> [] \<and> \<not> prefix ''#'' proxy_url
                       then add_proxy pl proxy_url ''http'' else pl))
            pool ls)"

definition load_from_api :: "proxy_pool \<Rightarrow> string list option \<Rightarrow> proxy_pool" where
  "load_from_api pool proxy_urls =
     (case proxy_urls of
        None \<Rightarrow> pool
      | Some us \<Rightarrow> foldl (\<lambda>pl u. add_proxy pl u ''http'') pool us)"

text \<open>The operations of a pool, and a pool after a sequence of them.\<close>

datatype pool_op =
    Add_proxy string string
  | Get_proxy real nat
  | Mark_success string real real
  | Mark_failure string string
  | Health_check "nat \<Rightarrow> probe_result"
  | Load_from_file "string list option"
  | Load_from_api "string list option"

fun apply_op :: "proxy_pool \<Rightarrow> pool_op \<Rightarrow> proxy_pool" where
  "apply_op pool (Add_proxy u proto) = add_proxy pool u proto"
| "apply_op pool (Get_proxy now rnd) = snd (get_proxy pool now rnd)"
| "apply_op pool (Mark_success u rt now) = mark_success pool u rt now"
| "apply_op pool (Mark_failure u reason) = mark_failure pool u reason"
| "apply_op pool (Health_check probe) = snd (health_check probe pool)"
| "apply_op pool (Load_from_file file_lines) = load_from_file pool file_lines"
| "apply_op pool (Load_from_api proxy_urls) = load_from_api pool proxy_urls"

text \<open>
  \<open>persists pool pool'\<close>: the pool \<open>pool'\<close> has the threshold of \<open>pool\<close> and every proxy
  of \<open>pool\<close> at its position, with its URL and with a failure counter that is not smaller.
\<close>

definition persists :: "proxy_pool \<Rightarrow> proxy_pool \<Rightarrow> bool" where
  "persists pool pool' \<longleftrightarrow>
     max_fail_count pool' = max_fail_count pool \<and>
     length (proxies pool) \<le> length (proxies pool') \<and>
     (\<forall>k < length (proxies pool).
        url (proxies pool' ! k) = url (proxies pool ! k) \<and>
        fail_count (proxies pool ! k) \<le> fail_count (proxies pool' ! k))"

section \<open>Facts about the string functions\<close>

lemma rfind_range: "- 1 \<le> rfind c s \<and> rfind c s < int (length s)"
  by (induction s) (auto simp: Let_def)

lemma rfind_nth: "0 \<le> rfind c s \<Longrightarrow> s ! nat (rfind c s) = c"
proof (induction s)
  case Nil
  then show ?case by simp
next
  case (Cons x xs)
  show ?case
  proof (cases "0 \<le> rfind c xs")
    case True
    then have "nat (rfind c xs + 1) = Suc (nat (rfind c xs))" by simp
    with True Cons.IH show ?thesis by (simp add: Let_def)
  next
    case False
    with Cons.prems show ?thesis by (simp add: Let_def split: if_splits)
  qed
qed

lemma rfind_notin: "rfind c s < 0 \<longleftrightarrow> c \<notin> set s"
  by (induction s) (auto simp: Let_def)

lemma rfind_last: "0 \<le> rfind c s \<Longrightarrow> c \<notin> set (drop (Suc (nat (rfind c s))) s)"
proof (induction s)
  case Nil
  then show ?case by simp
next
  case (Cons x xs)
  show ?case
  proof (cases "0 \<le> rfind c xs")
    case True
    then have "nat (rfind c xs + 1) = Suc (nat (rfind c xs))" by simp
    with True Cons.IH show ?thesis by (simp add: Let_def)
  next
    case False
    then have "c \<notin> set xs" using rfind_notin[of c xs] by simp
    with False Cons.prems show ?thesis by (simp add: Let_def split: if_splits)
  qed
qed

lemma splitext_append: "fst (splitext p) @ snd (splitext p) = p"
  by (simp add: splitext_def Let_def)

lemma splitext_ext_dot:
  assumes "snd (splitext p) \<noteq> []"
  shows "\<exists>r. snd (splitext p) = CHR ''.'' # r \<and> CHR ''.'' \<notin> set r"
proof -
  let ?d = "rfind CHR ''.'' p"
  from assms have d: "rfind CHR ''/'' p < ?d" and ext: "snd (splitext p) = drop (nat ?d) p"
    by (auto simp: splitext_def Let_def split: if_splits)
  from d rfind_range[of "CHR ''/''" p] have d0: "0 \<le> ?d" by linarith
  from rfind_range[of "CHR ''.''" p] d0 have lt: "nat ?d < length p" by linarith
  have "drop (nat ?d) p = p ! nat ?d # drop (Suc (nat ?d)) p"
    using lt by (simp add: Cons_nth_drop_Suc)
  with ext rfind_nth[OF d0] rfind_last[OF d0] show ?thesis by simp
qed

lemma lower_dot: "lower (CHR ''.'' # r) = CHR ''.'' # lower r"
  by (simp add: lower_def lower_char_def)

lemma lookup_mime_mem: "lookup_mime tbl ct = Some e \<Longrightarrow> e \<in> snd ` set tbl"
  by (induction tbl ct rule: lookup_mime.induct) (auto split: if_splits)

lemma ext_map_dot: "e \<in> snd ` set ext_map \<Longrightarrow> \<exists>r. e = CHR ''.'' # r"
  by (auto simp: ext_map_def)

lemma get_file_extension_dot: "\<exists>r. get_file_extension p resp = CHR ''.'' # r"
proof (cases "snd (splitext p) \<noteq> []")
  case True
  then obtain r where r: "snd (splitext p) = CHR ''.'' # r" using splitext_ext_dot by blast
  have "p \<noteq> []" using True by (auto simp: splitext_def Let_def)
  with True r show ?thesis by (simp add: get_file_extension_def lower_dot)
next
  case False
  show ?thesis
  proof (cases resp)
    case None
    with False show ?thesis by (simp add: get_file_extension_def)
  next
    case (Some r)
    let ?ct = "lower (case content_type_header r of None \<Rightarrow> [] | Some v \<Rightarrow> v)"
    show ?thesis
    proof (cases "lookup_mime ext_map ?ct")
      case None
      with False Some show ?thesis by (simp add: get_file_extension_def)
    next
      case (Some e)
      from lookup_mime_mem[OF this] obtain r' where "e = CHR ''.'' # r'"
        using ext_map_dot by blast
      with False Some \<open>resp = Some r\<close> show ?thesis by (simp add: get_file_extension_def)
    qed
  qed
qed

lemma digit_char_inj: "a < 10 \<Longrightarrow> b < 10 \<Longrightarrow> digit_char a = digit_char b \<Longrightarrow> a = b"
proof -
  assume a: "a < 10" and b: "b < 10" and eq: "digit_char a = digit_char b"
  have "distinct ''0123456789''" by simp
  moreover have "a < length ''0123456789''" "b < length ''0123456789''" using a b by simp_all
  ultimately show "a = b" using eq unfolding digit_char_def
    by (simp only: nth_eq_iff_index_eq)
qed

lemma digit_char_mem: "d < 10 \<Longrightarrow> digit_char d \<in> set ''0123456789''"
  unfolding digit_char_def by (rule nth_mem) simp

lemma str_nat_digits: "set (str_nat n) \<subseteq> set ''0123456789''"
proof (induction n rule: str_nat.induct)
  case (1 n)
  show ?case
  proof (cases "n < 10")
    case True
    then show ?thesis using digit_char_mem[of n] by (subst str_nat.simps) simp
  next
    case False
    have "n mod 10 < 10" by simp
    then have "digit_char (n mod 10) \<in> set ''0123456789''" by (rule digit_char_mem)
    with False 1 show ?thesis by (subst str_nat.simps) simp
  qed
qed

lemma str_nat_nonempty: "str_nat n \<noteq> []"
  by (subst str_nat.simps) simp

lemma str_nat_inj: "str_nat n = str_nat m \<Longrightarrow> n = m"
proof (induction n arbitrary: m rule: str_nat.induct)
  case (1 n)
  show ?case
  proof (cases "n < 10")
    case n: True
    show ?thesis
    proof (cases "m < 10")
      case True
      with n "1.prems" show ?thesis
        by (simp add: str_nat.simps[of n] str_nat.simps[of m] digit_char_inj)
    next
      case False
      with n "1.prems" str_nat_nonempty[of "m div 10"] show ?thesis
        by (simp add: str_nat.simps[of n] str_nat.simps[of m])
    qed
  next
    case n: False
    show ?thesis
    proof (cases "m < 10")
      case True
      with n "1.prems" str_nat_nonempty[of "n div 10"] show ?thesis
        by (simp add: str_nat.simps[of n] str_nat.simps[of m])
    next
      case False
      with n "1.prems" have eq: "str_nat (n div 10) = str_nat (m div 10)"
        and d: "digit_char (n mod 10) = digit_char (m mod 10)"
        by (simp_all add: str_nat.simps[of n] str_nat.simps[of m])
      from "1.IH"[OF n eq] have "n div 10 = m div 10" .
      moreover have "n mod 10 = m mod 10" using d by (intro digit_char_inj) simp_all
      ultimately show ?thesis by (metis div_mult_mod_eq)
    qed
  qed
qed

lemma set_Cons_mono: "set xs \<subseteq> set ys \<Longrightarrow> set (c # xs) \<subseteq> set (c # ys)"
  by auto

lemma str_int_chars: "set (str_int i) \<subseteq> set ''-0123456789''"
proof (cases "i < 0")
  case True
  have "set (CHR ''-'' # str_nat (nat (- i))) \<subseteq> set (CHR ''-'' # ''0123456789'')"
    by (rule set_Cons_mono) (rule str_nat_digits)
  with True show ?thesis by (simp only: str_int_def if_True)
next
  case False
  have "set (str_nat (nat i)) \<subseteq> set (CHR ''-'' # ''0123456789'')"
    by (rule subset_trans[OF str_nat_digits set_subset_Cons])
  with False show ?thesis by (simp only: str_int_def if_False)
qed

lemma str_nat_no_minus: "str_nat n \<noteq> CHR ''-'' # r"
proof
  assume "str_nat n = CHR ''-'' # r"
  then have "CHR ''-'' \<in> set (str_nat n)" by simp
  then have "CHR ''-'' \<in> set ''0123456789''" using str_nat_digits[of n] by blast
  then show False by simp
qed

lemma str_int_no_dot: "CHR ''.'' \<notin> set (str_int i)"
proof
  assume "CHR ''.'' \<in> set (str_int i)"
  then have "CHR ''.'' \<in> set ''-0123456789''" using str_int_chars[of i] by blast
  then show False by simp
qed

lemma str_int_no_underscore: "CHR ''_'' \<notin> set (str_int i)"
proof
  assume "CHR ''_'' \<in> set (str_int i)"
  then have "CHR ''_'' \<in> set ''-0123456789''" using str_int_chars[of i] by blast
  then show False by simp
qed

lemma str_int_inj: "str_int i = str_int j \<Longrightarrow> i = j"
proof -
  assume eq: "str_int i = str_int j"
  show "i = j"
  proof (cases "i < 0")
    case i: True
    show ?thesis
    proof (cases "j < 0")
      case True
      with i eq have "str_nat (nat (- i)) = str_nat (nat (- j))" by (simp add: str_int_def)
      then have "nat (- i) = nat (- j)" by (rule str_nat_inj)
      with i True show ?thesis by simp
    next
      case False
      with i eq have "str_nat (nat j) = CHR ''-'' # str_nat (nat (- i))" by (simp add: str_int_def)
      then show ?thesis using str_nat_no_minus by blast
    qed
  next
    case i: False
    show ?thesis
    proof (cases "j < 0")
      case True
      with i eq have "str_nat (nat i) = CHR ''-'' # str_nat (nat (- j))" by (simp add: str_int_def)
      then show ?thesis using str_nat_no_minus by blast
    next
      case False
      with i eq have "str_nat (nat i) = str_nat (nat j)" by (simp add: str_int_def)
      then have "nat i = nat j" by (rule str_nat_inj)
      with i False show ?thesis by simp
    qed
  qed
qed

lemma cut_at_mark:
  assumes "m \<notin> set a" "m \<notin> set b" "a @ m # r1 = b @ m # r2"
  shows "a = b \<and> r1 = r2"
proof -
  have "takeWhile (\<lambda>c. c \<noteq> m) (a @ m # r1) = a" using assms(1) by (auto simp: takeWhile_tail)
  moreover have "takeWhile (\<lambda>c. c \<noteq> m) (b @ m # r2) = b" using assms(2) by (auto simp: takeWhile_tail)
  ultimately have "a = b" using assms(3) by simp
  with assms(3) show ?thesis by simp
qed

lemma index_ext_inj:
  assumes "str_int i @ get_file_extension p1 r1 = str_int j @ get_file_extension p2 r2"
  shows "i = j"
proof -
  obtain e1 e2 where e: "get_file_extension p1 r1 = CHR ''.'' # e1" "get_file_extension p2 r2 = CHR ''.'' # e2"
    using get_file_extension_dot by blast
  have "CHR ''.'' \<notin> set (str_int i)" "CHR ''.'' \<notin> set (str_int j)"
    by (rule str_int_no_dot)+
  moreover from assms e have "str_int i @ CHR ''.'' # e1 = str_int j @ CHR ''.'' # e2" by simp
  ultimately have "str_int i = str_int j \<and> e1 = e2" by (rule cut_at_mark)
  then have "str_int i = str_int j" by simp
  then show ?thesis by (rule str_int_inj)
qed

lemma comment_index_inj:
  assumes "str_int c1 @ ''_attach_'' @ x1 = str_int c2 @ ''_attach_'' @ x2"
  shows "c1 = c2 \<and> x1 = x2"
proof -
  have "CHR ''_'' \<notin> set (str_int c1)" "CHR ''_'' \<notin> set (str_int c2)"
    by (rule str_int_no_underscore)+
  moreover from assms have "str_int c1 @ CHR ''_'' # (''attach_'' @ x1) = str_int c2 @ CHR ''_'' # (''attach_'' @ x2)"
    by simp
  ultimately have "str_int c1 = str_int c2 \<and> ''attach_'' @ x1 = ''attach_'' @ x2"
    by (rule cut_at_mark)
  then have "str_int c1 = str_int c2" and "x1 = x2" by simp_all
  from str_int_inj[OF this(1)] this(2) show ?thesis by simp
qed

section \<open>Extension resolution\<close>





section \<open>Storage paths\<close>

lemma file_path_shape:
  "file_path (download_request p t ft i c) r =
     (if ft = ''main'' then ''main_file/'' @ t @ get_file_extension p r
      else if ft = ''supplementary'' then ''SI_file/'' @ t @ ''/sup_'' @ str_int i @ get_file_extension p r
      else if ft = ''peer_review'' then ''PR_file/'' @ t @ ''/pr_'' @ str_int i @ get_file_extension p r
      else if ft = ''comment_attachment''
        then ''PR_file/'' @ t @ ''/comment_'' @ str_int (case c of None \<Rightarrow> 0 | Some k \<Rightarrow> k) @ ''_attach_'' @ str_int i @ get_file_extension p r
      else ''other/'' @ t @ ''/'' @
             (if basename p = [] then ''file_'' @ str_int i @ get_file_extension p r else basename p))"
  by (simp add: file_path_def download_request_def Let_def)

lemma file_path_dir:
  "\<exists>x. file_path (download_request p t ft i c) r = role_dir ft @ t @ x"
  by (simp add: file_path_shape role_dir_def)

lemma role_dir_cancel: "role_dir a @ x = role_dir b @ y \<Longrightarrow> role_dir a = role_dir b"
  by (auto simp: role_dir_def split: if_splits)

lemma role_dir_eq:
  assumes "role_dir a = role_dir b" "a \<noteq> b" "named_role a \<or> named_role b"
  shows "a = ''peer_review'' \<and> b = ''comment_attachment'' \<or> a = ''comment_attachment'' \<and> b = ''peer_review''"
  using assms by (auto simp: role_dir_def named_role_def split: if_splits)

lemma pr_vs_comment:
  "file_path (download_request p1 t ''peer_review'' i1 c1) r1
     \<noteq> file_path (download_request p2 t ''comment_attachment'' i2 c2) r2"
  by (simp add: file_path_shape)

lemma distinct_roles:
  assumes diff: "ft1 \<noteq> ft2" "named_role ft1 \<or> named_role ft2"
  shows "file_path (download_request p1 t ft1 i1 c1) r1
           \<noteq> file_path (download_request p2 t ft2 i2 c2) r2"
proof
  assume eq: "file_path (download_request p1 t ft1 i1 c1) r1
           = file_path (download_request p2 t ft2 i2 c2) r2"
  obtain x1 x2 where
    "file_path (download_request p1 t ft1 i1 c1) r1 = role_dir ft1 @ t @ x1"
    "file_path (download_request p2 t ft2 i2 c2) r2 = role_dir ft2 @ t @ x2"
    using file_path_dir by blast
  with eq have "role_dir ft1 @ (t @ x1) = role_dir ft2 @ (t @ x2)" by simp
  then have "role_dir ft1 = role_dir ft2" by (rule role_dir_cancel)
  from role_dir_eq[OF this diff]
  show False
  proof
    assume "ft1 = ''peer_review'' \<and> ft2 = ''comment_attachment''"
    with eq pr_vs_comment show False by blast
  next
    assume "ft1 = ''comment_attachment'' \<and> ft2 = ''peer_review''"
    with eq pr_vs_comment[of p2 t i2 c2 r2 p1 i1 c1 r1] show False by simp
  qed
qed

lemma distinct_supplementary:
  assumes "i1 \<noteq> i2"
  shows "file_path (download_request p1 t ''supplementary'' i1 c1) r1
           \<noteq> file_path (download_request p2 t ''supplementary'' i2 c2) r2"
proof
  assume "file_path (download_request p1 t ''supplementary'' i1 c1) r1
           = file_path (download_request p2 t ''supplementary'' i2 c2) r2"
  then have "str_int i1 @ get_file_extension p1 r1 = str_int i2 @ get_file_extension p2 r2"
    by (simp add: file_path_shape)
  then have "i1 = i2" by (rule index_ext_inj)
  with assms show False by simp
qed

lemma distinct_peer_review:
  assumes "i1 \<noteq> i2"
  shows "file_path (download_request p1 t ''peer_review'' i1 c1) r1
           \<noteq> file_path (download_request p2 t ''peer_review'' i2 c2) r2"
proof
  assume "file_path (download_request p1 t ''peer_review'' i1 c1) r1
           = file_path (download_request p2 t ''peer_review'' i2 c2) r2"
  then have "str_int i1 @ get_file_extension p1 r1 = str_int i2 @ get_file_extension p2 r2"
    by (simp add: file_path_shape)
  then have "i1 = i2" by (rule index_ext_inj)
  with assms show False by simp
qed

lemma distinct_comment_attachment:
  assumes "i1 \<noteq> i2 \<or> k1 \<noteq> k2" and c: "c1 = Some k1" "c2 = Some k2"
  shows "file_path (download_request p1 t ''comment_attachment'' i1 c1) r1
           \<noteq> file_path (download_request p2 t ''comment_attachment'' i2 c2) r2"
proof
  assume "file_path (download_request p1 t ''comment_attachment'' i1 c1) r1
           = file_path (download_request p2 t ''comment_attachment'' i2 c2) r2"
  with c have "str_int k1 @ ''_attach_'' @ (str_int i1 @ get_file_extension p1 r1)
                = str_int k2 @ ''_attach_'' @ (str_int i2 @ get_file_extension p2 r2)"
    by (simp add: file_path_shape)
  from comment_index_inj[OF this]
  have "k1 = k2" and "str_int i1 @ get_file_extension p1 r1 = str_int i2 @ get_file_extension p2 r2"
    by simp_all
  from this(1) index_ext_inj[OF this(2)] assms(1) show False by simp
qed

text \<open>
  Claim C1 (amended). For a request built with track id \<open>t\<close>, the path is the table's
  pattern for its role: \<open>main_file/{t}{e}\<close>, \<open>SI_file/{t}/sup_{i}{e}\<close>,
  \<open>PR_file/{t}/pr_{i}{e}\<close>, \<open>PR_file/{t}/comment_{c}_attach_{i}{e}\<close>, and
  \<open>other/{t}/\<close> followed by the base name of the URL path or, when that is empty,
  \<open>file_{i}{e}\<close>, where \<open>e\<close> is the resolved extension. \<open>file_path\<close> is a function of
  the request and the response, hence deterministic. Two requests with the same track id
  get different paths when their file types differ and at least one of them is one of
  the four named roles, when both are supplementary or both peer-review files with
  different indices, and when both are comment attachments that differ in the comment
  index or the attachment index. The main role ignores the index, and the fallback role
  takes the file name from the URL, so neither is separated by the index.
\<close>

theorem file_path_table_distinct:
  "file_path (download_request p t ''main'' i c) r = ''main_file/'' @ t @ get_file_extension p r
   \<and> file_path (download_request p t ''supplementary'' i c) r
       = ''SI_file/'' @ t @ ''/sup_'' @ str_int i @ get_file_extension p r
   \<and> file_path (download_request p t ''peer_review'' i c) r
       = ''PR_file/'' @ t @ ''/pr_'' @ str_int i @ get_file_extension p r
   \<and> file_path (download_request p t ''comment_attachment'' i (Some k)) r
       = ''PR_file/'' @ t @ ''/comment_'' @ str_int k @ ''_attach_'' @ str_int i
           @ get_file_extension p r
   \<and> file_path (download_request p t ''other'' i c) r
       = ''other/'' @ t @ ''/'' @
           (if basename p = [] then ''file_'' @ str_int i @ get_file_extension p r else basename p)
   \<and> (ft1 \<noteq> ft2 \<and> (named_role ft1 \<or> named_role ft2)
        \<or> ft1 = ft2 \<and> (ft1 = ''supplementary'' \<or> ft1 = ''peer_review'') \<and> i1 \<noteq> i2
        \<or> ft1 = ft2 \<and> ft1 = ''comment_attachment'' \<and> c1 = Some k1 \<and> c2 = Some k2
            \<and> (i1 \<noteq> i2 \<or> k1 \<noteq> k2)
      \<longrightarrow> file_path (download_request p1 t ft1 i1 c1) r1
            \<noteq> file_path (download_request p2 t ft2 i2 c2) r2)"
proof (intro conjI impI)
  assume "ft1 \<noteq> ft2 \<and> (named_role ft1 \<or> named_role ft2)
        \<or> ft1 = ft2 \<and> (ft1 = ''supplementary'' \<or> ft1 = ''peer_review'') \<and> i1 \<noteq> i2
        \<or> ft1 = ft2 \<and> ft1 = ''comment_attachment'' \<and> c1 = Some k1 \<and> c2 = Some k2
            \<and> (i1 \<noteq> i2 \<or> k1 \<noteq> k2)"
  then consider
      (diff) "ft1 \<noteq> ft2" "named_role ft1 \<or> named_role ft2"
    | (sup) "ft1 = ''supplementary''" "ft2 = ''supplementary''" "i1 \<noteq> i2"
    | (pr) "ft1 = ''peer_review''" "ft2 = ''peer_review''" "i1 \<noteq> i2"
    | (com) "ft1 = ''comment_attachment''" "ft2 = ''comment_attachment''"
        "c1 = Some k1" "c2 = Some k2" "i1 \<noteq> i2 \<or> k1 \<noteq> k2"
    by (elim disjE conjE) simp_all
  then show "file_path (download_request p1 t ft1 i1 c1) r1
            \<noteq> file_path (download_request p2 t ft2 i2 c2) r2"
  proof cases
    case diff
    then show ?thesis by (rule distinct_roles)
  next
    case sup
    from distinct_supplementary[OF sup(3)] sup(1,2) show ?thesis by simp
  next
    case pr
    from distinct_peer_review[OF pr(3)] pr(1,2) show ?thesis by simp
  next
    case com
    from distinct_comment_attachment[OF com(5,3,4)] com(1,2) show ?thesis by simp
  qed
qed (simp_all add: file_path_shape)

text \<open>
  The two paths of the specification's example: same track id and index, different roles.
\<close>

theorem file_path_table_distinct_witness:
  "file_path (download_request ''/dl/s2.pdf'' ''T1'' ''supplementary'' 2 None) None = ''SI_file/T1/sup_2.pdf''
   \<and> file_path (download_request ''/dl/s2.pdf'' ''T1'' ''peer_review'' 2 None) None = ''PR_file/T1/pr_2.pdf''
   \<and> file_path (download_request ''/dl/s2.pdf'' ''T1'' ''supplementary'' 2 None) None
       \<noteq> file_path (download_request ''/dl/s2.pdf'' ''T1'' ''peer_review'' 2 None) None"
  using file_path_table_distinct
    [of "''/dl/s2.pdf''" "''T1''" 2 None None 0 "''supplementary''" "''peer_review''"
        2 2 None 0 None 0 "''/dl/s2.pdf''" None "''/dl/s2.pdf''" None]
  by (simp add: file_path_def download_request_def get_file_extension_def splitext_def
      skip_leading_dots.simps basename_def lower_def lower_char_def ext_map_def str_int_def
      str_nat.simps digit_char_def named_role_def Let_def sublist_code)

text \<open>
  Claim C1 as stated fails where the index is not part of the path: two requests of the
  fallback role with indices 1 and 2 and the same URL share one path, and so do two
  requests of the main role with indices 0 and 1.
\<close>

theorem file_path_collision_counterexample:
  "file_path (download_request ''/files/a.pdf'' ''T1'' ''other'' 1 None) None = ''other/T1/a.pdf''
   \<and> file_path (download_request ''/files/a.pdf'' ''T1'' ''other'' 2 None) None = ''other/T1/a.pdf''
   \<and> file_path (download_request ''/files/a.pdf'' ''T1'' ''main'' 0 None) None = ''main_file/T1.pdf''
   \<and> file_path (download_request ''/files/a.pdf'' ''T1'' ''main'' 1 None) None = ''main_file/T1.pdf''"
  by (simp add: file_path_def download_request_def get_file_extension_def splitext_def
      skip_leading_dots.simps basename_def lower_def lower_char_def ext_map_def str_int_def
      str_nat.simps digit_char_def named_role_def Let_def sublist_code)

section \<open>Completion summary and checksums\<close>

lemma read_blocks_fed:
  "foldl (\<lambda>fed byte_block. fed @ byte_block) acc (read_blocks bs) = acc @ bs"
proof (induction bs arbitrary: acc rule: read_blocks.induct)
  case (1 bs)
  show ?case
  proof (cases "bs = []")
    case True
    then show ?thesis by (simp add: read_blocks.simps)
  next
    case False
    have "foldl (\<lambda>fed byte_block. fed @ byte_block) acc (read_blocks bs)
          = foldl (\<lambda>fed byte_block. fed @ byte_block) (acc @ take 4096 bs)
              (read_blocks (drop 4096 bs))"
      using False by (subst read_blocks.simps) simp
    also have "\<dots> = (acc @ take 4096 bs) @ drop 4096 bs" using False by (rule "1.IH")
    finally show ?thesis by simp
  qed
qed

lemma calculate_sha256_cases:
  "calculate_sha256 H fs p =
     (case fs p of Some (File bs) \<Rightarrow> H bs | Some Broken \<Rightarrow> [] | None \<Rightarrow> [])"
  using read_blocks_fed[of "[]"]
  by (simp add: calculate_sha256_def split: option.splits disk_entry.splits)

lemma attach_sha256_path: "attach_sha256 H basedir fs info ''path'' = info ''path''"
  by (simp add: attach_sha256_def Let_def split: option.splits)

lemma attach_sha256_idem:
  "attach_sha256 H basedir fs (attach_sha256 H basedir fs info) = attach_sha256 H basedir fs info"
  by (auto simp: attach_sha256_def Let_def split: option.splits)

lemma attach_sha256_digest:
  assumes "info ''path'' = Some p" "p \<noteq> []"
  shows "attach_sha256 H basedir fs info ''sha256'' =
           (case fs (path_join basedir p) of
              Some (File bs) \<Rightarrow> Some (H bs)
            | Some Broken \<Rightarrow> Some []
            | None \<Rightarrow> info ''sha256'')"
  using assms
  by (auto simp: attach_sha256_def Let_def calculate_sha256_cases
        split: option.splits disk_entry.splits)

lemma checksum_loop:
  assumes "\<And>x. g (g x) = g x"
  shows "foldl (\<lambda>heap' a. heap'(a := g (heap' a))) heap as b
           = (if b \<in> set as then g (heap b) else heap b)"
proof (induction as rule: rev_induct)
  case Nil
  show ?case by simp
next
  case (snoc a as)
  then show ?case using assms by auto
qed

text \<open>
  Claim C7. \<open>item_completed\<close> stores under \<open>downloaded_files\<close> a summary with exactly
  the number of successful downloads, the number of failed downloads (together, all the
  results) and the list of the successful \<open>file_info\<close> dictionaries. Every successful
  dictionary with a non-empty path whose file exists under the store's base directory
  then carries under \<open>sha256\<close> the SHA-256 hex digest of the bytes of that file, which is
  not empty (a hex digest never is: this is the assumption on \<open>H\<close>); when the file
  exists but cannot be read, the digest is the empty string and the item is returned
  all the same.
\<close>

theorem item_completed_summary:
  assumes "\<And>bs. H bs \<noteq> []"
  shows "fst (item_completed H basedir fs results item heap) ''downloaded_files''
           = Some (Downloaded \<lparr>successful = length (filter fst results),
                                failed = length (filter (\<lambda>r. \<not> fst r) results),
                                files = map snd (filter fst results)\<rparr>)
       \<and> length (filter fst results) + length (filter (\<lambda>r. \<not> fst r) results) = length results
       \<and> (\<forall>a \<in> set (map snd (filter fst results)). \<forall>p.
            heap a ''path'' = Some p \<and> p \<noteq> [] \<longrightarrow>
              (\<forall>bs. fs (path_join basedir p) = Some (File bs) \<longrightarrow>
                  snd (item_completed H basedir fs results item heap) a ''sha256'' = Some (H bs)
                  \<and> H bs \<noteq> [])
              \<and> (fs (path_join basedir p) = Some Broken \<longrightarrow>
                  snd (item_completed H basedir fs results item heap) a ''sha256'' = Some []))"
proof (intro conjI ballI allI impI)
  have f: "(\<lambda>(success, a). success) = fst" "(\<lambda>(success, a). \<not> success) = (\<lambda>r. \<not> fst r)"
    by auto
  show "fst (item_completed H basedir fs results item heap) ''downloaded_files''
           = Some (Downloaded \<lparr>successful = length (filter fst results),
                                failed = length (filter (\<lambda>r. \<not> fst r) results),
                                files = map snd (filter fst results)\<rparr>)"
    by (simp add: item_completed_def Let_def f)
  show "length (filter fst results) + length (filter (\<lambda>r. \<not> fst r) results) = length results"
    by (rule sum_length_filter_compl)
  fix a p bs
  assume a: "a \<in> set (map snd (filter fst results))" and p: "heap a ''path'' = Some p \<and> p \<noteq> []"
  have loop: "snd (item_completed H basedir fs results item heap) a
                = attach_sha256 H basedir fs (heap a)"
    using a checksum_loop[of "attach_sha256 H basedir fs" heap "map snd (filter fst results)" a]
    by (simp add: item_completed_def Let_def f attach_sha256_idem)
  {
    assume "fs (path_join basedir p) = Some (File bs)"
    with p loop show "snd (item_completed H basedir fs results item heap) a ''sha256'' = Some (H bs)"
      by (simp add: attach_sha256_digest)
    show "H bs \<noteq> []" by (rule assms)
  }
  {
    assume "fs (path_join basedir p) = Some Broken"
    with p loop show "snd (item_completed H basedir fs results item heap) a ''sha256'' = Some []"
      by (simp add: attach_sha256_digest)
  }
qed

text \<open>
  One successful and one failed download; a stand-in for the hash function marks the
  bytes it was given.
\<close>

theorem item_completed_summary_witness:
  "fst (item_completed (\<lambda>bs. ''digest of '' @ bs) ''/store''
          [''/store/main_file/T1.pdf'' \<mapsto> File ''%PDF-1.7'']
          [(True, 0), (False, 1)] [''track_id'' \<mapsto> Text ''T1'']
          ((\<lambda>a. Map.empty)(0 := [''path'' \<mapsto> ''main_file/T1.pdf'']))) ''downloaded_files''
     = Some (Downloaded \<lparr>successful = 1, failed = 1, files = [0]\<rparr>)
   \<and> snd (item_completed (\<lambda>bs. ''digest of '' @ bs) ''/store''
          [''/store/main_file/T1.pdf'' \<mapsto> File ''%PDF-1.7'']
          [(True, 0), (False, 1)] [''track_id'' \<mapsto> Text ''T1'']
          ((\<lambda>a. Map.empty)(0 := [''path'' \<mapsto> ''main_file/T1.pdf'']))) 0 ''sha256''
     = Some ''digest of %PDF-1.7''"
proof -
  have h: "\<And>bs. (\<lambda>bs. ''digest of '' @ bs) bs \<noteq> []" by simp
  from item_completed_summary[of "\<lambda>bs. ''digest of '' @ bs", OF h, of "''/store''"
      "[''/store/main_file/T1.pdf'' \<mapsto> File ''%PDF-1.7'']" "[(True, 0), (False, 1)]"
      "[''track_id'' \<mapsto> Text ''T1'']"
      "(\<lambda>a. Map.empty)(0 := [''path'' \<mapsto> ''main_file/T1.pdf''])"]
  show ?thesis by (simp add: path_join_def suffix_to_prefix)
qed

section \<open>The adaptive delay\<close>

lemma stats_of_update:
  "stats_of (L\<lparr>domain_stats := (domain_stats L)(d \<mapsto> s)\<rparr>) d' = (if d' = d then s else stats_of L d')"
  by (simp add: stats_of_def split: option.splits)

lemma adjust_delay_frame:
  "min_delay (adjust_delay L d) = min_delay L"
  "max_delay (adjust_delay L d) = max_delay L"
  "adaptive (adjust_delay L d) = adaptive L"
  by (simp_all add: adjust_delay_def Let_def)

lemma adjust_delay_other:
  "d' \<noteq> d \<Longrightarrow> stats_of (adjust_delay L d) d' = stats_of L d'"
  by (simp add: adjust_delay_def Let_def stats_of_update)

text \<open>What \<open>_adjust_delay\<close> does to the entry of its domain.\<close>

lemma adjust_delay_same:
  "stats_of (adjust_delay L d) d =
     (stats_of L d)\<lparr>current_delay :=
        (let s = stats_of L d;
             er = (if total_requests s > 0 then real (failed_requests s) / real (total_requests s) else 0)
         in if er > 0.2 then min (current_delay s * 1.5) (max_delay L)
            else if er < 0.05 \<and> avg_response_time s < 1
              then (if max (current_delay s * 0.9) (min_delay L) < current_delay s
                    then max (current_delay s * 0.9) (min_delay L) else current_delay s)
            else current_delay s)\<rparr>"
  by (simp add: adjust_delay_def Let_def stats_of_update)

lemma guarded_decrease:
  fixes c lo :: real
  assumes "0 \<le> lo" "lo \<le> c"
  shows "(if max (c * 0.9) lo < c then max (c * 0.9) lo else c) = max (0.9 * c) lo"
  using assms by (auto simp: max_def)

lemma increase_bounds:
  fixes c lo hi :: real
  assumes "0 \<le> lo" "lo \<le> c" "c \<le> hi"
  shows "lo \<le> min (1.5 * c) hi \<and> min (1.5 * c) hi \<le> hi"
  using assms by (auto simp: min_def)

lemma decrease_bounds:
  fixes c lo hi :: real
  assumes "0 \<le> lo" "lo \<le> c" "c \<le> hi"
  shows "lo \<le> max (0.9 * c) lo \<and> max (0.9 * c) lo \<le> hi"
  using assms by (auto simp: max_def)

lemma adjust_delay_law:
  assumes "0 < total_requests (stats_of L d)" "0 \<le> min_delay L"
    and "min_delay L \<le> current_delay (stats_of L d)"
  shows "total_requests (stats_of (adjust_delay L d) d) = total_requests (stats_of L d)
       \<and> failed_requests (stats_of (adjust_delay L d) d) = failed_requests (stats_of L d)
       \<and> avg_response_time (stats_of (adjust_delay L d) d) = avg_response_time (stats_of L d)
       \<and> current_delay (stats_of (adjust_delay L d) d) =
           (if real (failed_requests (stats_of L d)) / real (total_requests (stats_of L d)) > 0.2
              then min (1.5 * current_delay (stats_of L d)) (max_delay L)
            else if real (failed_requests (stats_of L d)) / real (total_requests (stats_of L d)) < 0.05
                    \<and> avg_response_time (stats_of L d) < 1
              then max (0.9 * current_delay (stats_of L d)) (min_delay L)
            else current_delay (stats_of L d))"
proof -
  let ?s = "stats_of L d"
  let ?er = "real (failed_requests ?s) / real (total_requests ?s)"
  have g: "(if max (current_delay ?s * 0.9) (min_delay L) < current_delay ?s
            then max (current_delay ?s * 0.9) (min_delay L) else current_delay ?s)
           = max (0.9 * current_delay ?s) (min_delay L)"
    using assms(2,3) by (rule guarded_decrease)
  have c: "current_delay (stats_of (adjust_delay L d) d) =
        (if ?er > 0.2 then min (current_delay ?s * 1.5) (max_delay L)
         else if ?er < 0.05 \<and> avg_response_time ?s < 1
           then (if max (current_delay ?s * 0.9) (min_delay L) < current_delay ?s
                 then max (current_delay ?s * 0.9) (min_delay L) else current_delay ?s)
         else current_delay ?s)"
    using assms(1) unfolding adjust_delay_same by (simp add: Let_def)
  have m: "current_delay ?s * 1.5 = 1.5 * current_delay ?s" by (rule mult.commute)
  from c show ?thesis
    unfolding g m by (simp add: adjust_delay_same)
qed

text \<open>
  One recorded outcome, seen from the entry of its domain: the counters after the call,
  and the delay as a function of the delay before.
\<close>

lemma record_outcome_same:
  assumes "delay_inv lo hi L" "0 \<le> lo"
  shows "current_delay (stats_of (record_outcome L ev) (outcome_domain ev)) =
          (if real (failed_requests (stats_of (record_outcome L ev) (outcome_domain ev)))
                / real (total_requests (stats_of (record_outcome L ev) (outcome_domain ev))) > 0.2
             then min (1.5 * current_delay (stats_of L (outcome_domain ev))) hi
           else if real (failed_requests (stats_of (record_outcome L ev) (outcome_domain ev)))
                    / real (total_requests (stats_of (record_outcome L ev) (outcome_domain ev))) < 0.05
                   \<and> avg_response_time (stats_of (record_outcome L ev) (outcome_domain ev)) < 1
             then max (0.9 * current_delay (stats_of L (outcome_domain ev))) lo
           else current_delay (stats_of L (outcome_domain ev)))"
proof -
  from assms(1) have ad: "adaptive L" and lo: "min_delay L = lo" and hi: "max_delay L = hi"
    and b: "\<And>d. lo \<le> current_delay (stats_of L d)"
    by (simp_all add: delay_inv_def)
  show ?thesis
  proof (cases ev)
    case (Succeeded d rt)
    define s2 where "s2 = (stats_of L d)\<lparr>total_requests := total_requests (stats_of L d) + 1,
        success_requests := success_requests (stats_of L d) + 1,
        avg_response_time := (if avg_response_time (stats_of L d) = 0 then rt
                              else (avg_response_time (stats_of L d) + rt) / 2)\<rparr>"
    define L1 where "L1 = L\<lparr>domain_stats := (domain_stats L)(d \<mapsto> s2)\<rparr>"
    have r: "record_outcome L ev = adjust_delay L1 d"
      using ad Succeeded by (simp add: record_success_def Let_def s2_def L1_def)
    have s: "stats_of L1 d = s2" by (simp add: L1_def stats_of_update)
    have f: "min_delay L1 = lo" "max_delay L1 = hi" using lo hi by (simp_all add: L1_def)
    have c: "current_delay s2 = current_delay (stats_of L d)" "0 < total_requests s2"
      by (simp_all add: s2_def)
    from adjust_delay_law[of L1 d] s f c b[of d] assms(2) Succeeded r
    show ?thesis by simp
  next
    case (Failed d)
    define s1 where "s1 = (stats_of L d)\<lparr>total_requests := total_requests (stats_of L d) + 1,
        failed_requests := failed_requests (stats_of L d) + 1\<rparr>"
    define L1 where "L1 = L\<lparr>domain_stats := (domain_stats L)(d \<mapsto> s1)\<rparr>"
    have r: "record_outcome L ev = adjust_delay L1 d"
      using ad Failed by (simp add: record_failure_def Let_def s1_def L1_def)
    have s: "stats_of L1 d = s1" by (simp add: L1_def stats_of_update)
    have f: "min_delay L1 = lo" "max_delay L1 = hi" using lo hi by (simp_all add: L1_def)
    have c: "current_delay s1 = current_delay (stats_of L d)" "0 < total_requests s1"
      by (simp_all add: s1_def)
    from adjust_delay_law[of L1 d] s f c b[of d] assms(2) Failed r
    show ?thesis by simp
  qed
qed

lemma record_outcome_other:
  assumes "d \<noteq> outcome_domain ev"
  shows "stats_of (record_outcome L ev) d = stats_of L d"
proof (cases ev)
  case (Succeeded d' rt)
  with assms show ?thesis
    by (simp add: record_success_def Let_def adjust_delay_other stats_of_update)
next
  case (Failed d')
  with assms show ?thesis
    by (simp add: record_failure_def Let_def adjust_delay_other stats_of_update)
qed

lemma record_outcome_frame:
  "min_delay (record_outcome L ev) = min_delay L"
  "max_delay (record_outcome L ev) = max_delay L"
  "adaptive (record_outcome L ev) = adaptive L"
  by (cases ev; simp add: record_success_def record_failure_def Let_def adjust_delay_frame)+

lemma delay_inv_init: "lo \<le> hi \<Longrightarrow> delay_inv lo hi (new_limiter lo hi rnd True)"
  by (simp add: delay_inv_def new_limiter_def stats_of_def)

lemma delay_inv_step:
  assumes "delay_inv lo hi L" "0 \<le> lo"
  shows "delay_inv lo hi (record_outcome L ev)"
proof -
  have "lo \<le> current_delay (stats_of (record_outcome L ev) d)
      \<and> current_delay (stats_of (record_outcome L ev) d) \<le> hi" for d
  proof (cases "d = outcome_domain ev")
    case True
    from assms(1) have b: "lo \<le> current_delay (stats_of L (outcome_domain ev))"
      "current_delay (stats_of L (outcome_domain ev)) \<le> hi"
      by (simp_all add: delay_inv_def)
    from record_outcome_same[OF assms, of ev]
      increase_bounds[OF assms(2) b] decrease_bounds[OF assms(2) b] b True
    show ?thesis by (simp split: if_splits)
  next
    case False
    with assms(1) show ?thesis by (simp add: record_outcome_other delay_inv_def)
  qed
  with assms(1) show ?thesis by (simp add: delay_inv_def record_outcome_frame)
qed

lemma delay_inv_run:
  assumes "0 \<le> lo" "lo \<le> hi"
  shows "delay_inv lo hi (foldl record_outcome (new_limiter lo hi rnd True) evs)"
proof (induction evs rule: rev_induct)
  case Nil
  from assms(2) show ?case by (simp add: delay_inv_init)
next
  case (snoc ev evs)
  then show ?case by (simp add: delay_inv_step assms(1))
qed

text \<open>
  Claim C2 (amended). Let \<open>0 \<le> min_delay \<le> max_delay\<close>, and let an adaptive limiter
  start with no statistics (every delay is \<open>min_delay\<close>) and record any sequence of
  outcomes. After each further \<open>record_success\<close> or \<open>record_failure\<close> call, with the error
  rate \<open>failed_requests / total_requests\<close> of the domain after the call: if the error rate
  is above 0.20, the new delay of the domain is \<open>min (1.5 \<times> previous, max_delay)\<close>;
  else if the error rate is below 0.05 and the average response time is below 1.0, it
  is \<open>max (0.9 \<times> previous, min_delay)\<close>; otherwise it is unchanged. The delay of every
  domain lies within \<open>[min_delay, max_delay]\<close> throughout.
\<close>

theorem adaptive_delay_law:
  assumes "0 \<le> lo" "lo \<le> hi"
  shows "let L = foldl record_outcome (new_limiter lo hi rnd True) evs;
             L' = record_outcome L ev;
             prev = current_delay (stats_of L (outcome_domain ev));
             s' = stats_of L' (outcome_domain ev);
             error_rate = real (failed_requests s') / real (total_requests s')
         in current_delay s' =
              (if error_rate > 0.2 then min (1.5 * prev) hi
               else if error_rate < 0.05 \<and> avg_response_time s' < 1 then max (0.9 * prev) lo
               else prev)
            \<and> (\<forall>d. lo \<le> current_delay (stats_of L' d) \<and> current_delay (stats_of L' d) \<le> hi)"
proof -
  let ?L = "foldl record_outcome (new_limiter lo hi rnd True) evs"
  have inv: "delay_inv lo hi ?L" using assms by (rule delay_inv_run)
  from delay_inv_step[OF inv assms(1), of ev]
  have "\<forall>d. lo \<le> current_delay (stats_of (record_outcome ?L ev) d)
           \<and> current_delay (stats_of (record_outcome ?L ev) d) \<le> hi"
    by (simp add: delay_inv_def)
  with record_outcome_same[OF inv assms(1), of ev] show ?thesis by (simp add: Let_def)
qed

text \<open>
  Bounds 1 and 5: two failures raise the delay from 1 to 2.25, and after four failures
  it is capped at 5.
\<close>

theorem adaptive_delay_law_witness:
  "current_delay (stats_of (foldl record_outcome (new_limiter 1 5 True True)
       [Failed ''example.org'', Failed ''example.org'']) ''example.org'') = 9 / 4
   \<and> current_delay (stats_of (foldl record_outcome (new_limiter 1 5 True True)
       [Failed ''example.org'', Failed ''example.org'', Failed ''example.org'',
        Failed ''example.org'']) ''example.org'') = 5"
  using adaptive_delay_law[of 1 5 True "[Failed ''example.org'']" "Failed ''example.org''"]
    adaptive_delay_law[of 1 5 True "[Failed ''example.org'', Failed ''example.org'', Failed ''example.org'']"
      "Failed ''example.org''"]
  by (simp add: Let_def new_limiter_def record_failure_def adjust_delay_def stats_of_def)

text \<open>
  Claim C2 as stated asks only for \<open>min_delay \<le> max_delay\<close>. With \<open>min_delay = -1\<close> and
  \<open>max_delay = 5\<close> the first failure multiplies the delay \<open>-1\<close> by 1.5, which leaves the
  interval at its lower end.
\<close>

theorem negative_min_delay_counterexample:
  "current_delay (stats_of (record_outcome (new_limiter (- 1) 5 True True) (Failed ''example.org''))
      ''example.org'') = - 3 / 2
   \<and> \<not> min_delay (record_outcome (new_limiter (- 1) 5 True True) (Failed ''example.org''))
        \<le> current_delay (stats_of (record_outcome (new_limiter (- 1) 5 True True)
             (Failed ''example.org'')) ''example.org'')"
  by (simp add: Let_def new_limiter_def record_failure_def adjust_delay_def stats_of_def)

section \<open>Sessions\<close>

lemma save_session_fields:
  "session_timeout (save_session M plat cks account md now wr) = session_timeout M"
  "session_dir (save_session M plat cks account md now wr) = session_dir M"
  "sessions (save_session M plat cks account md now wr) (session_key plat account) =
     Some \<lparr>platform = plat, account_id = account, cookies = cks, created_at = now,
           last_used = now, metadata = (case md of None \<Rightarrow> Map.empty | Some m \<Rightarrow> m)\<rparr>"
  by (cases wr; simp add: save_session_def save_session_to_file_def Let_def)+



lemma get_session_cached:
  assumes "sessions M (session_key plat account) = Some s" "is_session_valid M s now"
  shows "get_session M plat account now = (Some s, M)"
  using assms by (simp add: get_session_def Let_def)




text \<open>
  Claim C10 (amended). For every platform \<open>p\<close> and every non-empty account id \<open>a\<close>, the
  key built for \<open>(p, a)\<close> is the key built for the platform \<open>p_a\<close> with no account. So
  \<open>get_session\<close> and \<open>clear_session\<close> do the same for both forms, a session saved under
  one form replaces the session stored under the other and is read back through the
  other, and \<open>clear_session\<close> with one form deletes the session saved with the other.
\<close>

theorem session_key_collision:
  "a \<noteq> [] \<longrightarrow>
     session_key p (Some a) = session_key (p @ ''_'' @ a) None
   \<and> get_session M p (Some a) now = get_session M (p @ ''_'' @ a) None now
   \<and> clear_session M p (Some a) ok = clear_session M (p @ ''_'' @ a) None ok
   \<and> sessions (save_session M p cks (Some a) md now wr) (session_key (p @ ''_'' @ a) None)
       = Some \<lparr>platform = p, account_id = Some a, cookies = cks, created_at = now,
               last_used = now, metadata = (case md of None \<Rightarrow> Map.empty | Some m \<Rightarrow> m)\<rparr>
   \<and> sessions (save_session M (p @ ''_'' @ a) cks None md now wr) (session_key p (Some a))
       = Some \<lparr>platform = p @ ''_'' @ a, account_id = None, cookies = cks, created_at = now,
               last_used = now, metadata = (case md of None \<Rightarrow> Map.empty | Some m \<Rightarrow> m)\<rparr>
   \<and> (now' - now < real_of_int (session_timeout M) \<longrightarrow>
        fst (get_session (save_session M p cks (Some a) md now wr) (p @ ''_'' @ a) None now')
          = Some \<lparr>platform = p, account_id = Some a, cookies = cks, created_at = now,
                  last_used = now, metadata = (case md of None \<Rightarrow> Map.empty | Some m \<Rightarrow> m)\<rparr>)
   \<and> sessions (snd (clear_session (save_session M p cks (Some a) md now wr) (p @ ''_'' @ a) None ok))
        (session_key p (Some a)) = None"
proof
  assume a: "a \<noteq> []"
  then have k: "session_key p (Some a) = session_key (p @ ''_'' @ a) None"
    by (simp add: session_key_def)
  let ?M = "save_session M p cks (Some a) md now wr"
  let ?s = "\<lparr>platform = p, account_id = Some a, cookies = cks, created_at = now,
               last_used = now, metadata = (case md of None \<Rightarrow> Map.empty | Some m \<Rightarrow> m)\<rparr>"
  have g: "get_session M p (Some a) now = get_session M (p @ ''_'' @ a) None now" for M now
    by (simp add: get_session_def k)
  have c: "clear_session M p (Some a) ok = clear_session M (p @ ''_'' @ a) None ok" for M
    by (simp add: clear_session_def k)
  have s1: "sessions ?M (session_key (p @ ''_'' @ a) None) = Some ?s"
    using save_session_fields(3)[of M p cks "Some a" md now wr] by (simp add: k)
  have s2: "sessions (save_session M (p @ ''_'' @ a) cks None md now wr) (session_key p (Some a))
       = Some \<lparr>platform = p @ ''_'' @ a, account_id = None, cookies = cks, created_at = now,
               last_used = now, metadata = (case md of None \<Rightarrow> Map.empty | Some m \<Rightarrow> m)\<rparr>"
    using save_session_fields(3)[of M "p @ ''_'' @ a" cks None md now wr] by (simp add: k)
  have r: "fst (get_session ?M (p @ ''_'' @ a) None now') = Some ?s"
    if "now' - now < real_of_int (session_timeout M)"
  proof -
    from that have "is_session_valid ?M ?s now'"
      by (simp add: is_session_valid_def save_session_fields)
    with save_session_fields(3)[of M p cks "Some a" md now wr]
    have "get_session ?M p (Some a) now' = (Some ?s, ?M)" by (rule get_session_cached)
    then show ?thesis by (simp add: g)
  qed
  have d: "sessions (snd (clear_session ?M (p @ ''_'' @ a) None ok)) (session_key p (Some a)) = None"
    by (simp add: clear_session_def Let_def k)
  from k g c s1 s2 r d
  show "session_key p (Some a) = session_key (p @ ''_'' @ a) None
   \<and> get_session M p (Some a) now = get_session M (p @ ''_'' @ a) None now
   \<and> clear_session M p (Some a) ok = clear_session M (p @ ''_'' @ a) None ok
   \<and> sessions ?M (session_key (p @ ''_'' @ a) None) = Some ?s
   \<and> sessions (save_session M (p @ ''_'' @ a) cks None md now wr) (session_key p (Some a))
       = Some \<lparr>platform = p @ ''_'' @ a, account_id = None, cookies = cks, created_at = now,
               last_used = now, metadata = (case md of None \<Rightarrow> Map.empty | Some m \<Rightarrow> m)\<rparr>
   \<and> (now' - now < real_of_int (session_timeout M) \<longrightarrow>
        fst (get_session ?M (p @ ''_'' @ a) None now') = Some ?s)
   \<and> sessions (snd (clear_session ?M (p @ ''_'' @ a) None ok)) (session_key p (Some a)) = None"
    by blast
qed

text \<open>Platform \<open>site\<close> with account \<open>bob\<close>, read back as platform \<open>site_bob\<close>.\<close>

theorem session_key_collision_witness:
  "session_key ''site'' (Some ''bob'') = ''site_bob''
   \<and> session_key ''site_bob'' None = ''site_bob''
   \<and> map_option platform (fst (get_session
        (save_session \<lparr>session_dir = ''./data/sessions'', session_timeout = 3600,
                        sessions = Map.empty, disk = Map.empty\<rparr>
           ''site'' [''sid'' \<mapsto> ''abc''] (Some ''bob'') None 100 Written) ''site_bob'' None 200))
       = Some ''site''"
  using session_key_collision
      [where a = "''bob''" and p = "''site''" and now = 100 and now' = 200 and wr = Written
         and cks = "[''sid'' \<mapsto> ''abc'']" and md = None and ok = True
         and M = "\<lparr>session_dir = ''./data/sessions'', session_timeout = 3600,
                        sessions = Map.empty, disk = Map.empty\<rparr>"]
  by (simp add: session_key_def)

text \<open>
  Claim C10 as stated covers every account id. The empty account id is treated as no
  account: the key for \<open>(site, "")\<close> is \<open>site\<close>, not \<open>site_\<close>.
\<close>

theorem empty_account_counterexample:
  "session_key ''site'' (Some []) = ''site''
   \<and> session_key (''site'' @ ''_'' @ []) None = ''site_''"
  by (simp add: session_key_def)

section \<open>Facts about the proxy pool\<close>

lemma find_proxy_iff:
  "find_proxy ps u = Some k \<longleftrightarrow>
     k < length ps \<and> url (ps ! k) = u \<and> (\<forall>j < k. url (ps ! j) \<noteq> u)"
proof (induction ps arbitrary: k)
  case Nil
  then show ?case by simp
next
  case (Cons p ps)
  show ?case
  proof (cases "url p = u")
    case True
    then show ?thesis by (cases k) auto
  next
    case False
    show ?thesis
    proof (cases k)
      case 0
      with False show ?thesis by auto
    next
      case (Suc k')
      have "(\<forall>j < Suc k'. url ((p # ps) ! j) \<noteq> u) \<longleftrightarrow> (\<forall>j < k'. url (ps ! j) \<noteq> u)"
        using False by (auto simp: less_Suc_eq_0_disj)
      with False Suc Cons.IH[of k'] show ?thesis by auto
    qed
  qed
qed

lemma find_proxy_Some: "find_proxy ps u = Some k \<Longrightarrow> k < length ps \<and> url (ps ! k) = u"
  by (simp add: find_proxy_iff)

lemma find_proxy_map_url:
  "map url xs = map url ys \<Longrightarrow> find_proxy xs u = find_proxy ys u"
proof (induction xs arbitrary: ys)
  case Nil
  then show ?case by simp
next
  case (Cons x xs)
  then obtain y ys' where ys: "ys = y # ys'" by (cases ys) auto
  with Cons.prems have "url x = url y" "map url xs = map url ys'" by simp_all
  with Cons.IH[of ys'] ys show ?case by simp
qed

lemma find_proxy_update:
  assumes "url q = url (ps ! k)" "k < length ps"
  shows "find_proxy (ps[k := q]) u = find_proxy ps u"
proof -
  have "map url (ps[k := q]) = (map url ps)[k := url q]" by (rule map_update)
  also have "\<dots> = (map url ps)[k := map url ps ! k]" using assms by simp
  also have "\<dots> = map url ps" by (rule list_update_id)
  finally show ?thesis by (rule find_proxy_map_url)
qed

lemma mark_failure_nth:
  assumes "find_proxy (proxies pool) u = Some k"
  shows "proxies (mark_failure pool u r) ! k =
           (proxies pool ! k)\<lparr>fail_count := fail_count (proxies pool ! k) + 1,
              is_banned := is_banned (proxies pool ! k)
                 \<or> max_fail_count pool \<le> int (fail_count (proxies pool ! k)) + 1\<rparr>"
  using assms find_proxy_Some[OF assms] by (simp add: mark_failure_def Let_def)

lemma mark_failure_other:
  assumes "find_proxy (proxies pool) u \<noteq> Some j"
  shows "proxies (mark_failure pool u r) ! j = proxies pool ! j"
  using assms by (auto simp: mark_failure_def Let_def split: option.splits)

lemma mark_failure_frame:
  "max_fail_count (mark_failure pool u r) = max_fail_count pool"
  "ban_duration (mark_failure pool u r) = ban_duration pool"
  "length (proxies (mark_failure pool u r)) = length (proxies pool)"
  "find_proxy (proxies (mark_failure pool u r)) v = find_proxy (proxies pool) v"
  "url (proxies (mark_failure pool u r) ! j) = url (proxies pool ! j)"
proof -
  show "max_fail_count (mark_failure pool u r) = max_fail_count pool"
    by (simp add: mark_failure_def Let_def split: option.splits)
  show "ban_duration (mark_failure pool u r) = ban_duration pool"
    by (simp add: mark_failure_def Let_def split: option.splits)
  show "length (proxies (mark_failure pool u r)) = length (proxies pool)"
    by (simp add: mark_failure_def Let_def split: option.splits)
  show "find_proxy (proxies (mark_failure pool u r)) v = find_proxy (proxies pool) v"
  proof (cases "find_proxy (proxies pool) u")
    case None
    then show ?thesis by (simp add: mark_failure_def)
  next
    case (Some k)
    from find_proxy_Some[OF this] show ?thesis
      using Some by (simp add: mark_failure_def Let_def find_proxy_update)
  qed
  show "url (proxies (mark_failure pool u r) ! j) = url (proxies pool ! j)"
  proof (cases "find_proxy (proxies pool) u = Some j")
    case True
    then show ?thesis by (simp add: mark_failure_nth)
  next
    case False
    then show ?thesis by (simp add: mark_failure_other)
  qed
qed

lemma mark_success_nth:
  assumes "find_proxy (proxies pool) u = Some k"
  shows "proxies (mark_success pool u rt now) ! k =
           (proxies pool ! k)\<lparr>success_count := success_count (proxies pool ! k) + 1,
              last_success := Some now, is_banned := False,
              response_time := (if response_time (proxies pool ! k) = 0 then rt
                                else (response_time (proxies pool ! k) + rt) / 2)\<rparr>"
  using assms find_proxy_Some[OF assms] by (simp add: mark_success_def Let_def)

lemma mark_success_other:
  assumes "find_proxy (proxies pool) u \<noteq> Some j"
  shows "proxies (mark_success pool u rt now) ! j = proxies pool ! j"
  using assms by (auto simp: mark_success_def Let_def split: option.splits)

lemma mark_success_frame:
  "max_fail_count (mark_success pool u rt now) = max_fail_count pool"
  "ban_duration (mark_success pool u rt now) = ban_duration pool"
  "length (proxies (mark_success pool u rt now)) = length (proxies pool)"
  "find_proxy (proxies (mark_success pool u rt now)) v = find_proxy (proxies pool) v"
  "url (proxies (mark_success pool u rt now) ! j) = url (proxies pool ! j)"
  "fail_count (proxies (mark_success pool u rt now) ! j) = fail_count (proxies pool ! j)"
proof -
  show "max_fail_count (mark_success pool u rt now) = max_fail_count pool"
    by (simp add: mark_success_def Let_def split: option.splits)
  show "ban_duration (mark_success pool u rt now) = ban_duration pool"
    by (simp add: mark_success_def Let_def split: option.splits)
  show "length (proxies (mark_success pool u rt now)) = length (proxies pool)"
    by (simp add: mark_success_def Let_def split: option.splits)
  show "find_proxy (proxies (mark_success pool u rt now)) v = find_proxy (proxies pool) v"
  proof (cases "find_proxy (proxies pool) u")
    case None
    then show ?thesis by (simp add: mark_success_def)
  next
    case (Some k)
    from find_proxy_Some[OF this] show ?thesis
      using Some by (simp add: mark_success_def Let_def find_proxy_update)
  qed
  have "url (proxies (mark_success pool u rt now) ! j) = url (proxies pool ! j)
      \<and> fail_count (proxies (mark_success pool u rt now) ! j) = fail_count (proxies pool ! j)"
  proof (cases "find_proxy (proxies pool) u = Some j")
    case True
    then show ?thesis by (simp add: mark_success_nth)
  next
    case False
    then show ?thesis by (simp add: mark_success_other)
  qed
  then show "url (proxies (mark_success pool u rt now) ! j) = url (proxies pool ! j)"
    and "fail_count (proxies (mark_success pool u rt now) ! j) = fail_count (proxies pool ! j)"
    by simp_all
qed

text \<open>A run of failures reported for one URL, seen from the proxy the URL resolves to.\<close>

lemma failure_run:
  assumes "find_proxy (proxies pool) u = Some k"
  shows "find_proxy (proxies (foldl (\<lambda>pl r. mark_failure pl u r) pool rs)) u = Some k
       \<and> max_fail_count (foldl (\<lambda>pl r. mark_failure pl u r) pool rs) = max_fail_count pool
       \<and> fail_count (proxies (foldl (\<lambda>pl r. mark_failure pl u r) pool rs) ! k)
           = fail_count (proxies pool ! k) + length rs
       \<and> is_banned (proxies (foldl (\<lambda>pl r. mark_failure pl u r) pool rs) ! k)
           = (is_banned (proxies pool ! k)
              \<or> rs \<noteq> [] \<and> max_fail_count pool \<le> int (fail_count (proxies pool ! k)) + int (length rs))"
proof (induction rs rule: rev_induct)
  case Nil
  with assms show ?case by simp
next
  case (snoc r rs)
  let ?q = "foldl (\<lambda>pl r. mark_failure pl u r) pool rs"
  from snoc have f: "find_proxy (proxies ?q) u = Some k"
    and m: "max_fail_count ?q = max_fail_count pool"
    and c: "fail_count (proxies ?q ! k) = fail_count (proxies pool ! k) + length rs"
    and b: "is_banned (proxies ?q ! k)
           = (is_banned (proxies pool ! k)
              \<or> rs \<noteq> [] \<and> max_fail_count pool \<le> int (fail_count (proxies pool ! k)) + int (length rs))"
    by simp_all
  have "proxies (mark_failure ?q u r) ! k =
           (proxies ?q ! k)\<lparr>fail_count := fail_count (proxies ?q ! k) + 1,
              is_banned := is_banned (proxies ?q ! k)
                 \<or> max_fail_count ?q \<le> int (fail_count (proxies ?q ! k)) + 1\<rparr>"
    using f by (rule mark_failure_nth)
  with m c b f show ?case by (auto simp: mark_failure_frame)
qed

section \<open>Proxy scores\<close>

text \<open>
  Claim C6 (amended). The success rate of a proxy is \<open>success_count / (success_count +
  fail_count)\<close>, and 0 when both counters are 0. The score is on a scale from 0 to 100:
  it is 100 times the sum of \<open>0.7 \<times> success_rate\<close> and the term
  \<open>0.3 \<times> (1 - response_time / 3)\<close> bounded below at 0, that is,
  \<open>70 \<times> success_rate + max(0, 30 - 10 \<times> response_time)\<close>.
\<close>

theorem score_formula:
  "success_rate p =
     (if success_count p + fail_count p = 0 then 0
      else real (success_count p) / real (success_count p + fail_count p))
   \<and> score p = 100 * (0.7 * success_rate p + max 0 (0.3 * (1 - response_time p / 3)))"
proof
  show "success_rate p =
     (if success_count p + fail_count p = 0 then 0
      else real (success_count p) / real (success_count p + fail_count p))"
    by (simp add: success_rate_def Let_def)
next
  have "max 0 (30 - response_time p * 10) = 100 * max 0 (0.3 * (1 - response_time p / 3))"
    by (simp add: max_def algebra_simps)
  then show "score p = 100 * (0.7 * success_rate p + max 0 (0.3 * (1 - response_time p / 3)))"
    by (simp add: score_def Let_def algebra_simps)
qed

text \<open>A proxy with three successes, one failure and a response time of one second.\<close>

theorem score_formula_witness:
  "success_rate \<lparr>url = ''http://a'', protocol = ''http'', success_count = 3, fail_count = 1,
      last_used = None, last_success = None, response_time = 1, is_banned = False\<rparr> = 3 / 4
   \<and> score \<lparr>url = ''http://a'', protocol = ''http'', success_count = 3, fail_count = 1,
      last_used = None, last_success = None, response_time = 1, is_banned = False\<rparr> = 145 / 2"
  using score_formula[of "\<lparr>url = ''http://a'', protocol = ''http'', success_count = 3, fail_count = 1,
      last_used = None, last_success = None, response_time = 1, is_banned = False\<rparr>"]
  by simp

text \<open>
  Claim C6 as stated gives the weights 0.7 and 0.3 as the score itself: for a proxy with
  one success, no failure and response time 0 that sum is 1, and the score is 100.
\<close>

theorem score_scale_counterexample:
  "score \<lparr>url = ''http://a'', protocol = ''http'', success_count = 1, fail_count = 0,
      last_used = None, last_success = None, response_time = 0, is_banned = False\<rparr> = 100
   \<and> 0.7 * success_rate \<lparr>url = ''http://a'', protocol = ''http'', success_count = 1, fail_count = 0,
      last_used = None, last_success = None, response_time = 0, is_banned = False\<rparr>
       + max 0 (0.3 * (1 - response_time \<lparr>url = ''http://a'', protocol = ''http'', success_count = 1,
      fail_count = 0, last_used = None, last_success = None, response_time = 0, is_banned = False\<rparr> / 3))
     = 1"
  by (simp add: score_def success_rate_def Let_def)

section \<open>Banning and un-banning a proxy\<close>

text \<open>
  Claim C3. Let a URL resolve to a proxy of the pool that is not banned, and let a run
  of one or more \<open>mark_failure\<close> calls for that URL, with no other call in between, bring
  its failure counter to exactly \<open>max_fail_count\<close>. Then the proxy is not banned after
  any shorter part of the run, it is banned after the run, and one \<open>mark_success\<close> call
  for the URL after the run resets \<open>is_banned\<close> to \<open>False\<close>.
\<close>

theorem ban_after_max_failures:
  assumes "find_proxy (proxies pool) u = Some k"
    and "\<not> is_banned (proxies pool ! k)"
    and "reasons \<noteq> []"
    and "int (fail_count (proxies pool ! k)) + int (length reasons) = max_fail_count pool"
  shows "(\<forall>m < length reasons.
            \<not> is_banned (proxies (foldl (\<lambda>pl r. mark_failure pl u r) pool (take m reasons)) ! k))
       \<and> is_banned (proxies (foldl (\<lambda>pl r. mark_failure pl u r) pool reasons) ! k)
       \<and> \<not> is_banned
            (proxies (mark_success (foldl (\<lambda>pl r. mark_failure pl u r) pool reasons) u rt now) ! k)"
proof (intro conjI allI impI)
  fix m assume m: "m < length reasons"
  from failure_run[OF assms(1), of "take m reasons"] assms(2,4) m
  show "\<not> is_banned (proxies (foldl (\<lambda>pl r. mark_failure pl u r) pool (take m reasons)) ! k)"
    by simp
next
  from failure_run[OF assms(1), of reasons] assms(3,4)
  show "is_banned (proxies (foldl (\<lambda>pl r. mark_failure pl u r) pool reasons) ! k)"
    by simp
next
  from failure_run[OF assms(1), of reasons]
  have "find_proxy (proxies (foldl (\<lambda>pl r. mark_failure pl u r) pool reasons)) u = Some k"
    by simp
  then show "\<not> is_banned
            (proxies (mark_success (foldl (\<lambda>pl r. mark_failure pl u r) pool reasons) u rt now) ! k)"
    by (simp add: mark_success_nth)
qed

text \<open>A fresh pool with threshold 2: the second failure bans, the success un-bans.\<close>

theorem ban_after_max_failures_witness:
  "\<not> is_banned (proxies (new_pool [''http://a'', ''http://b''] ''round_robin'' 2 300) ! 0)
   \<and> is_banned (proxies (foldl (\<lambda>pl r. mark_failure pl ''http://a'' r)
                   (new_pool [''http://a'', ''http://b''] ''round_robin'' 2 300)
                   [''timeout'', ''refused'']) ! 0)
   \<and> \<not> is_banned (proxies (mark_success (foldl (\<lambda>pl r. mark_failure pl ''http://a'' r)
                   (new_pool [''http://a'', ''http://b''] ''round_robin'' 2 300)
                   [''timeout'', ''refused'']) ''http://a'' (1 / 2) 20) ! 0)"
proof -
  let ?P = "new_pool [''http://a'', ''http://b''] ''round_robin'' 2 300"
  have h1: "find_proxy (proxies ?P) ''http://a'' = Some 0"
    by (simp add: new_pool_def add_proxy_def)
  have h2: "\<not> is_banned (proxies ?P ! 0)"
    by (simp add: new_pool_def add_proxy_def)
  have h3: "[''timeout'', ''refused''] \<noteq> []" by simp
  have h4: "int (fail_count (proxies ?P ! 0)) + int (length [''timeout'', ''refused''])
              = max_fail_count ?P"
    by (simp add: new_pool_def add_proxy_def)
  from ban_after_max_failures[OF h1 h2 h3 h4, of "1 / 2" 20] h2 show ?thesis by simp
qed

section \<open>Selecting a proxy\<close>

lemma max_by_score_mem: "max_by_score ps best ks \<in> set (best # ks)"
proof (induction ks arbitrary: best)
  case Nil
  then show ?case by simp
next
  case (Cons k ks)
  from Cons.IH[of "if score (ps ! k) > score (ps ! best) then k else best"]
  show ?case by (auto split: if_splits)
qed

text \<open>
  The position \<open>get_proxy\<close> selects among the candidates \<open>av\<close>, for each strategy.
\<close>

lemma get_proxy_unfold:
  assumes "filter (\<lambda>k. available pool now (proxies pool ! k)) [0..<length (proxies pool)] = av"
      and "av \<noteq> []"
  shows "\<exists>k \<in> set av.
           fst (get_proxy pool now rnd)
             = Some [(''http'', url (proxies pool ! k)), (''https'', url (proxies pool ! k))]
         \<and> proxies (snd (get_proxy pool now rnd))
             = (proxies pool)[k := (proxies pool ! k)\<lparr>last_used := Some now\<rparr>]
         \<and> max_fail_count (snd (get_proxy pool now rnd)) = max_fail_count pool"
proof -
  from assms(2) have len: "0 < length av" by simp
  have ne: "proxies pool \<noteq> []" using assms by auto
  have rr: "av ! (current_index pool mod length av) \<in> set av" using len by simp
  have rn: "av ! (rnd mod length av) \<in> set av" using len by simp
  have bp: "max_by_score (proxies pool) (hd av) (tl av) \<in> set av"
    using max_by_score_mem[of "proxies pool" "hd av" "tl av"] assms(2) by simp
  have fs: "av ! 0 \<in> set av" using len by simp
  consider (a) "rotation_strategy pool = ''round_robin''"
    | (b) "rotation_strategy pool \<noteq> ''round_robin''" "rotation_strategy pool = ''random''"
    | (c) "rotation_strategy pool \<noteq> ''round_robin''" "rotation_strategy pool \<noteq> ''random''"
          "rotation_strategy pool = ''best_performance''"
    | (d) "rotation_strategy pool \<noteq> ''round_robin''" "rotation_strategy pool \<noteq> ''random''"
          "rotation_strategy pool \<noteq> ''best_performance''"
    by blast
  then show ?thesis
  proof cases
    case a
    with assms ne rr show ?thesis
      by (intro bexI[of _ "av ! (current_index pool mod length av)"])
         (simp_all add: get_proxy_def Let_def)
  next
    case b
    with assms ne rn show ?thesis
      by (intro bexI[of _ "av ! (rnd mod length av)"]) (simp_all add: get_proxy_def Let_def)
  next
    case c
    with assms ne bp show ?thesis
      by (intro bexI[of _ "max_by_score (proxies pool) (hd av) (tl av)"])
         (simp_all add: get_proxy_def Let_def)
  next
    case d
    with assms ne fs show ?thesis
      by (intro bexI[of _ "av ! 0"]) (simp_all add: get_proxy_def Let_def)
  qed
qed

lemma get_proxy_none:
  assumes "\<forall>p \<in> set (proxies pool). \<not> available pool now p"
  shows "get_proxy pool now rnd = (None, pool)"
proof -
  have "filter (\<lambda>k. available pool now (proxies pool ! k)) [0..<length (proxies pool)] = []"
    using assms by (simp add: filter_empty_conv)
  then show ?thesis by (simp add: get_proxy_def Let_def)
qed

lemma get_proxy_some:
  assumes "p \<in> set (proxies pool)" "available pool now p"
  shows "\<exists>k < length (proxies pool). available pool now (proxies pool ! k)
           \<and> fst (get_proxy pool now rnd)
               = Some [(''http'', url (proxies pool ! k)), (''https'', url (proxies pool ! k))]"
proof -
  let ?av = "filter (\<lambda>k. available pool now (proxies pool ! k)) [0..<length (proxies pool)]"
  from assms obtain j where "j < length (proxies pool)" "available pool now (proxies pool ! j)"
    by (auto simp: in_set_conv_nth)
  then have "j \<in> set ?av" by simp
  then have "?av \<noteq> []" by (metis empty_iff empty_set)
  from get_proxy_unfold[OF refl this, of rnd] obtain k where
    "k \<in> set ?av"
    "fst (get_proxy pool now rnd)
       = Some [(''http'', url (proxies pool ! k)), (''https'', url (proxies pool ! k))]"
    by blast
  then show ?thesis by auto
qed

text \<open>
  Claim C5. \<open>get_proxy\<close> returns \<open>None\<close> (and leaves the pool as it is) when the pool
  is empty, and when every proxy is banned and either was never used or was last used
  at most \<open>ban_duration\<close> seconds ago. It returns the dictionary of some proxy of the
  pool as soon as one banned proxy was last used more than \<open>ban_duration\<close> seconds ago,
  whatever the counters of that proxy are. The model has no other outcome: \<open>get_proxy\<close>
  never raises.
\<close>

theorem get_proxy_none_or_some:
  "((proxies pool = [] \<or>
      (\<forall>p \<in> set (proxies pool).
          is_banned p \<and>
          (case last_used p of None \<Rightarrow> True
           | Some lu \<Rightarrow> now - lu \<le> real_of_int (ban_duration pool))))
     \<longrightarrow> get_proxy pool now rnd = (None, pool))
   \<and> (p \<in> set (proxies pool) \<and> is_banned p \<and> last_used p = Some lu
        \<and> now - lu > real_of_int (ban_duration pool)
     \<longrightarrow> (\<exists>k < length (proxies pool).
            fst (get_proxy pool now rnd)
              = Some [(''http'', url (proxies pool ! k)), (''https'', url (proxies pool ! k))]))"
proof (intro conjI impI)
  assume "proxies pool = [] \<or>
      (\<forall>p \<in> set (proxies pool).
          is_banned p \<and>
          (case last_used p of None \<Rightarrow> True
           | Some lu \<Rightarrow> now - lu \<le> real_of_int (ban_duration pool)))"
  then have "\<forall>p \<in> set (proxies pool). \<not> available pool now p"
    by (auto simp: available_def split: option.splits)
  then show "get_proxy pool now rnd = (None, pool)" by (rule get_proxy_none)
next
  assume "p \<in> set (proxies pool) \<and> is_banned p \<and> last_used p = Some lu
        \<and> now - lu > real_of_int (ban_duration pool)"
  then have "p \<in> set (proxies pool)" "available pool now p"
    by (simp_all add: available_def)
  from get_proxy_some[OF this, of rnd]
  show "\<exists>k < length (proxies pool).
            fst (get_proxy pool now rnd)
              = Some [(''http'', url (proxies pool ! k)), (''https'', url (proxies pool ! k))]"
    by blast
qed

text \<open>
  An empty pool; and a pool whose only proxy is banned, has no success, and was last
  used at time 0 with a cooldown of 300 seconds: nothing at time 300, the proxy at 301.
\<close>

theorem get_proxy_none_or_some_witness:
  "get_proxy \<lparr>rotation_strategy = ''best_performance'', max_fail_count = 5, ban_duration = 300,
       proxies = [], current_index = 0\<rparr> 1000 0
     = (None, \<lparr>rotation_strategy = ''best_performance'', max_fail_count = 5, ban_duration = 300,
       proxies = [], current_index = 0\<rparr>)
   \<and> fst (get_proxy \<lparr>rotation_strategy = ''best_performance'', max_fail_count = 5, ban_duration = 300,
       proxies = [\<lparr>url = ''http://a'', protocol = ''http'', success_count = 0, fail_count = 5,
                   last_used = Some 0, last_success = None, response_time = 0, is_banned = True\<rparr>],
       current_index = 0\<rparr> 300 0) = None
   \<and> fst (get_proxy \<lparr>rotation_strategy = ''best_performance'', max_fail_count = 5, ban_duration = 300,
       proxies = [\<lparr>url = ''http://a'', protocol = ''http'', success_count = 0, fail_count = 5,
                   last_used = Some 0, last_success = None, response_time = 0, is_banned = True\<rparr>],
       current_index = 0\<rparr> 301 0) = Some [(''http'', ''http://a''), (''https'', ''http://a'')]"
  using get_proxy_none_or_some
      [of "\<lparr>rotation_strategy = ''best_performance'', max_fail_count = 5, ban_duration = 300,
            proxies = [], current_index = 0\<rparr>" 1000 0]
    get_proxy_none_or_some
      [of "\<lparr>rotation_strategy = ''best_performance'', max_fail_count = 5, ban_duration = 300,
       proxies = [\<lparr>url = ''http://a'', protocol = ''http'', success_count = 0, fail_count = 5,
                   last_used = Some 0, last_success = None, response_time = 0, is_banned = True\<rparr>],
       current_index = 0\<rparr>" 300 0]
    get_proxy_none_or_some
      [of "\<lparr>rotation_strategy = ''best_performance'', max_fail_count = 5, ban_duration = 300,
       proxies = [\<lparr>url = ''http://a'', protocol = ''http'', success_count = 0, fail_count = 5,
                   last_used = Some 0, last_success = None, response_time = 0, is_banned = True\<rparr>],
       current_index = 0\<rparr>" 301 0
       "\<lparr>url = ''http://a'', protocol = ''http'', success_count = 0, fail_count = 5,
                   last_used = Some 0, last_success = None, response_time = 0, is_banned = True\<rparr>" 0]
  by simp

section \<open>Failure counters never decrease\<close>

lemma persists_refl: "persists pool pool"
  by (simp add: persists_def)

lemma persists_trans: "persists a b \<Longrightarrow> persists b c \<Longrightarrow> persists a c"
  unfolding persists_def
  by (metis (no_types, lifting) le_trans less_le_trans)

lemma persists_add_proxy: "persists pool (add_proxy pool u proto)"
  by (simp add: persists_def add_proxy_def nth_append)

lemma persists_mark_success: "persists pool (mark_success pool u rt now)"
  by (simp add: persists_def mark_success_frame)

lemma persists_mark_failure: "persists pool (mark_failure pool u r)"
proof -
  have "fail_count (proxies pool ! k) \<le> fail_count (proxies (mark_failure pool u r) ! k)" for k
  proof (cases "find_proxy (proxies pool) u = Some k")
    case True
    then show ?thesis by (simp add: mark_failure_nth)
  next
    case False
    then show ?thesis by (simp add: mark_failure_other)
  qed
  then show ?thesis by (simp add: persists_def mark_failure_frame)
qed

lemma persists_get_proxy: "persists pool (snd (get_proxy pool now rnd))"
proof -
  let ?av = "filter (\<lambda>k. available pool now (proxies pool ! k)) [0..<length (proxies pool)]"
  show ?thesis
  proof (cases "?av = []")
    case True
    then have "get_proxy pool now rnd = (None, pool)" by (simp add: get_proxy_def Let_def)
    then show ?thesis by (simp add: persists_refl)
  next
    case False
    from get_proxy_unfold[OF refl False, of rnd] obtain k where
      p: "proxies (snd (get_proxy pool now rnd))
            = (proxies pool)[k := (proxies pool ! k)\<lparr>last_used := Some now\<rparr>]"
      and m: "max_fail_count (snd (get_proxy pool now rnd)) = max_fail_count pool"
      by blast
    have "url (((proxies pool)[k := (proxies pool ! k)\<lparr>last_used := Some now\<rparr>]) ! j)
            = url (proxies pool ! j)
        \<and> fail_count (((proxies pool)[k := (proxies pool ! k)\<lparr>last_used := Some now\<rparr>]) ! j)
            = fail_count (proxies pool ! j)" if "j < length (proxies pool)" for j
      using that by (cases "j = k") simp_all
    with p m show ?thesis by (simp add: persists_def)
  qed
qed

lemma persists_foldl:
  assumes "\<And>pl x. persists pl (f pl x)"
  shows "persists pool (foldl f pool xs)"
proof (induction xs rule: rev_induct)
  case Nil
  show ?case by (simp add: persists_refl)
next
  case (snoc x xs)
  from snoc assms[of "foldl f pool xs" x] show ?case
    by (simp add: persists_trans)
qed

lemma persists_health_step:
  "persists (fst st) (fst (health_step probe k st))"
  by (cases st; cases "probe k")
     (simp_all add: health_step_def persists_mark_success persists_mark_failure)

lemma persists_health_fold:
  "persists (fst st) (fst (fold (health_step probe) ks st))"
proof (induction ks arbitrary: st)
  case Nil
  show ?case by (simp add: persists_refl)
next
  case (Cons k ks)
  from persists_health_step[of st probe k] Cons.IH[of "health_step probe k st"]
  show ?case by (simp add: persists_trans)
qed

lemma persists_health_check: "persists pool (snd (health_check probe pool))"
proof -
  obtain pool' h uh where
    f: "fold (health_step probe) [0..<length (proxies pool)] (pool, 0, 0) = (pool', h, uh)"
    by (cases "fold (health_step probe) [0..<length (proxies pool)] (pool, 0, 0)") auto
  from persists_health_fold[of "(pool, 0, 0)" probe "[0..<length (proxies pool)]"] f
  have "persists pool pool'" by simp
  with f show ?thesis by (simp add: health_check_def)
qed

lemma persists_load_from_file: "persists pool (load_from_file pool file_lines)"
proof (cases file_lines)
  case None
  then show ?thesis by (simp add: load_from_file_def persists_refl)
next
  case (Some ls)
  have "persists pool
          (foldl (\<lambda>pl line. (let proxy_url = strip line
                    in if proxy_url \<noteq> [] \<and> \<not> prefix ''#'' proxy_url
                       then add_proxy pl proxy_url ''http'' else pl)) pool ls)"
    by (rule persists_foldl) (simp add: Let_def persists_refl persists_add_proxy)
  with Some show ?thesis by (simp add: load_from_file_def)
qed

lemma persists_load_from_api: "persists pool (load_from_api pool proxy_urls)"
proof (cases proxy_urls)
  case None
  then show ?thesis by (simp add: load_from_api_def persists_refl)
next
  case (Some us)
  have "persists pool (foldl (\<lambda>pl u. add_proxy pl u ''http'') pool us)"
    by (rule persists_foldl) (rule persists_add_proxy)
  with Some show ?thesis by (simp add: load_from_api_def)
qed

lemma persists_apply_op: "persists pool (apply_op pool op)"
  by (cases op)
     (simp_all add: persists_add_proxy persists_get_proxy persists_mark_success
        persists_mark_failure persists_health_check persists_load_from_file
        persists_load_from_api)

lemma persists_run: "persists pool (foldl apply_op pool ops)"
  by (rule persists_foldl) (rule persists_apply_op)

lemma find_proxy_persists:
  assumes "find_proxy (proxies pool) u = Some k" "persists pool pool'"
  shows "find_proxy (proxies pool') u = Some k"
proof -
  from assms(1) have k: "k < length (proxies pool)" "url (proxies pool ! k) = u"
    and first: "\<forall>j < k. url (proxies pool ! j) \<noteq> u"
    by (simp_all add: find_proxy_iff)
  from assms(2) have len: "length (proxies pool) \<le> length (proxies pool')"
    and same: "\<forall>j < length (proxies pool). url (proxies pool' ! j) = url (proxies pool ! j)"
    by (simp_all add: persists_def)
  from k len same first have "k < length (proxies pool')" "url (proxies pool' ! k) = u"
    "\<forall>j < k. url (proxies pool' ! j) \<noteq> u"
    by auto
  then show ?thesis by (simp add: find_proxy_iff)
qed

text \<open>
  Claim C9. Under every sequence of pool operations each proxy keeps its position and
  its failure counter never decreases; \<open>mark_success\<close> leaves every failure counter as it
  is. Hence, once the counter of the proxy a URL resolves to has reached
  \<open>max_fail_count\<close>, a \<open>mark_success\<close> un-bans it, and after that and after any further
  operations a single \<open>mark_failure\<close> for the URL bans it again.
\<close>

theorem fail_count_monotone_reban:
  "(\<forall>j < length (proxies pool).
      fail_count (proxies pool ! j) \<le> fail_count (proxies (foldl apply_op pool ops) ! j))
   \<and> (\<forall>j < length (proxies pool).
        fail_count (proxies (mark_success pool u rt now) ! j) = fail_count (proxies pool ! j))
   \<and> (find_proxy (proxies pool) u = Some k
        \<and> max_fail_count pool \<le> int (fail_count (proxies pool ! k))
      \<longrightarrow> \<not> is_banned (proxies (mark_success pool u rt now) ! k)
          \<and> is_banned
              (proxies (mark_failure (foldl apply_op (mark_success pool u rt now) ops') u reason) ! k))"
proof (intro conjI allI impI)
  fix j assume "j < length (proxies pool)"
  with persists_run[of pool ops]
  show "fail_count (proxies pool ! j) \<le> fail_count (proxies (foldl apply_op pool ops) ! j)"
    by (simp add: persists_def)
next
  fix j
  show "fail_count (proxies (mark_success pool u rt now) ! j) = fail_count (proxies pool ! j)"
    by (simp add: mark_success_frame)
next
  assume "find_proxy (proxies pool) u = Some k
        \<and> max_fail_count pool \<le> int (fail_count (proxies pool ! k))"
  then show "\<not> is_banned (proxies (mark_success pool u rt now) ! k)"
    by (simp add: mark_success_nth)
next
  assume a: "find_proxy (proxies pool) u = Some k
        \<and> max_fail_count pool \<le> int (fail_count (proxies pool ! k))"
  let ?s = "mark_success pool u rt now"
  let ?q = "foldl apply_op ?s ops'"
  have ps: "persists pool ?q"
    using persists_mark_success[of pool u rt now] persists_run[of ?s ops']
    by (rule persists_trans)
  from a have k: "k < length (proxies pool)" by (simp add: find_proxy_iff)
  from find_proxy_persists[OF _ ps] a have f: "find_proxy (proxies ?q) u = Some k" by simp
  from ps k have "max_fail_count ?q = max_fail_count pool"
    "fail_count (proxies pool ! k) \<le> fail_count (proxies ?q ! k)"
    by (simp_all add: persists_def)
  with a have "max_fail_count ?q \<le> int (fail_count (proxies ?q ! k)) + 1" by simp
  with f show "is_banned (proxies (mark_failure ?q u reason) ! k)"
    by (simp add: mark_failure_nth)
qed

text \<open>
  Threshold 2 and a proxy with two failures: un-banned by a success, used and reported
  successful once more, and banned again by the next single failure.
\<close>

theorem fail_count_monotone_reban_witness:
  "\<not> is_banned (proxies (mark_success
        \<lparr>rotation_strategy = ''round_robin'', max_fail_count = 2, ban_duration = 300,
          proxies = [\<lparr>url = ''http://a'', protocol = ''http'', success_count = 0, fail_count = 2,
                      last_used = None, last_success = None, response_time = 0, is_banned = True\<rparr>],
          current_index = 0\<rparr> ''http://a'' (1 / 2) 5) ! 0)
   \<and> fail_count (proxies (mark_success
        \<lparr>rotation_strategy = ''round_robin'', max_fail_count = 2, ban_duration = 300,
          proxies = [\<lparr>url = ''http://a'', protocol = ''http'', success_count = 0, fail_count = 2,
                      last_used = None, last_success = None, response_time = 0, is_banned = True\<rparr>],
          current_index = 0\<rparr> ''http://a'' (1 / 2) 5) ! 0) = 2
   \<and> is_banned (proxies (mark_failure (foldl apply_op (mark_success
        \<lparr>rotation_strategy = ''round_robin'', max_fail_count = 2, ban_duration = 300,
          proxies = [\<lparr>url = ''http://a'', protocol = ''http'', success_count = 0, fail_count = 2,
                      last_used = None, last_success = None, response_time = 0, is_banned = True\<rparr>],
          current_index = 0\<rparr> ''http://a'' (1 / 2) 5)
        [Get_proxy 10 0, Mark_success ''http://a'' 1 20]) ''http://a'' ''timeout'') ! 0)"
  using fail_count_monotone_reban
    [of "\<lparr>rotation_strategy = ''round_robin'', max_fail_count = 2, ban_duration = 300,
          proxies = [\<lparr>url = ''http://a'', protocol = ''http'', success_count = 0, fail_count = 2,
                      last_used = None, last_success = None, response_time = 0, is_banned = True\<rparr>],
          current_index = 0\<rparr>" "[]" "''http://a''" "1 / 2" 5 0
        "[Get_proxy 10 0, Mark_success ''http://a'' 1 20]" "''timeout''"]
  by simp

end
